theory Spec2Isabelle
  imports Main "HOL-Library.Sublist"
begin

section \<open>The grest router: data model\<close>

text \<open>
  The development embeds \<^verbatim>\<open>router.go\<close>. A request is the part of \<^verbatim>\<open>*http.Request\<close> the
  router reads or hands on: the method, \<^verbatim>\<open>URL.Path\<close> and the queryable parameters
  (\<^verbatim>\<open>url.Values\<close>, a key with its sequence of values). The \<^verbatim>\<open>http.ResponseWriter\<close> is
  kept as the sequence of calls made on it, in order.
\<close>

type_synonym url_Values = "(string \<times> string list) list"

record Request =
  Method :: string
  URL_Path :: string
  Query :: url_Values

datatype effect =
    HeaderAdd string string
  | Write string
  | HttpError string nat
  | NotFound

datatype error = Err string

text \<open>
  What a handler did with the continuation \<^verbatim>\<open>next\<close> it was given: it returned without
  calling it (\<open>Stopped\<close>, the chain ends for this request), or it called it with an
  optional error. Handlers are taken to be one-shot and synchronous: the continuation is
  called at most once, as the last thing the handler does.
\<close>

datatype outcome = Stopped | Called "error option"

text \<open>
  \<^verbatim>\<open>HTTPHandler\<close> has three implementations: a plain function (\<^verbatim>\<open>HTTPHandleFunc\<close>), a
  \<^verbatim>\<open>*Router\<close> and a \<^verbatim>\<open>*Route\<close>. A plain function is given by its body: from the request
  it computes the request as it leaves it, the calls it makes on the response writer and
  its outcome. \<^verbatim>\<open>Router\<close> has the fields of the struct of the source. The structs \<^verbatim>\<open>layer\<close> and
  \<^verbatim>\<open>Route\<close> are declared outside \<^verbatim>\<open>router.go\<close>; their fields follow the data model of the
  specification: a layer pairs a path pattern with a handler, a flag telling whether the
  pattern must match the whole path (the third argument of \<^verbatim>\<open>newLayer\<close>) and an optional
  Route; a Route has a path and, per method name, an ordered chain of handlers.

  These types are what one dispatch reads, the pointers of the Go structs followed: a
  router with its layers, a layer with its handler, a handler that is a router with that
  router. The dispatch only reads them. Registration writes through the pointers; it works
  on the routers in memory, which come after the dispatch.
\<close>

datatype HTTPHandler =
    HTTPHandleFunc "Request \<Rightarrow> Request \<times> effect list \<times> outcome"
  | RouterH Router
  | RouteH Route
and Router = MkRouter (stack: "layer list") (routerPrefix: string)
and layer = MkLayer (layer_path: string) (layer_handler: HTTPHandler) (layer_end: bool)
    (layer_route: "Route option")
and Route = MkRoute (route_path: string) (methodHandlers: "(string \<times> HTTPHandler list) list")

text \<open>
  The state one dispatch works on: the request (handlers and the router may change it),
  the calls made so far on the response writer, and \<open>handled\<close>, a history variable that is
  not in the source: the patterns of the layers whose \<^verbatim>\<open>handleRequest\<close> the router has
  called, in order.
\<close>

record world =
  req :: Request
  res :: "effect list"
  handled :: "string list"

text \<open>
  The functions \<^verbatim>\<open>route\<close> calls that are not in \<^verbatim>\<open>router.go\<close> are parameters of the
  model: \<^verbatim>\<open>layer.match\<close> (from the layer's pattern, its flag and the trimmed path to the
  captured parameters and the verdict), \<^verbatim>\<open>Route.handlesMethod\<close>,
  \<^verbatim>\<open>Route.optionsMethods\<close>, \<^verbatim>\<open>layer.registerParamsAsQuery\<close> and the encoder
  \<^verbatim>\<open>json.Marshal\<close> on a slice of strings.
\<close>

record ext =
  layer_match :: "string \<Rightarrow> bool \<Rightarrow> string \<Rightarrow> url_Values \<times> bool"
  handlesMethod :: "Route \<Rightarrow> string \<Rightarrow> bool"
  optionsMethods :: "Route \<Rightarrow> string list"
  registerParamsAsQuery :: "layer \<Rightarrow> Request \<Rightarrow> url_Values \<Rightarrow> Request"
  json_Marshal :: "string list \<Rightarrow> error + string"

section \<open>Library functions of Go\<close>

text \<open>\<^verbatim>\<open>strings.TrimPrefix(s, prefix)\<close>: \<open>s\<close> without the leading \<open>prefix\<close>, or \<open>s\<close> itself.\<close>

definition TrimPrefix :: "string \<Rightarrow> string \<Rightarrow> string" where
  "TrimPrefix s p = (if prefix p s then drop (length p) s else s)"

text \<open>\<^verbatim>\<open>strings.Join(elems, sep)\<close>.\<close>

fun Join :: "string list \<Rightarrow> string \<Rightarrow> string" where
  "Join [] sep = []"
| "Join [x] sep = x"
| "Join (x # y # ys) sep = x @ sep @ Join (y # ys) sep"

section \<open>Dispatch\<close>

text \<open>\<^verbatim>\<open>func (this *Router) matchLayer(l *layer, path string) (url.Values, bool)\<close>\<close>

definition matchLayer :: "ext \<Rightarrow> layer \<Rightarrow> string \<Rightarrow> url_Values \<times> bool" where
  "matchLayer X l path = layer_match X (layer_path l) (layer_end l) path"

text \<open>
  The \<^verbatim>\<open>for\<close> loop of \<^verbatim>\<open>next\<close> (lines 228 to 249). The loop state is the cursor \<open>idx\<close> and
  the list \<open>allowOptionsMethods\<close>; the result also gives, when the loop leaves with
  \<open>match == true\<close>, the layer \<open>l\<close> and \<open>urlParams\<close> of the last iteration (they are read
  only in that case).
\<close>

function scan :: "ext \<Rightarrow> layer list \<Rightarrow> string \<Rightarrow> string \<Rightarrow> nat \<Rightarrow> string list
    \<Rightarrow> nat \<times> string list \<times> (layer \<times> url_Values) option" where
  "scan X stk path method idx allow =
     (if idx < length stk then
        (let l = stk ! idx;
             idx' = idx + 1;
             (urlParams, match) = matchLayer X l path
         in case layer_route l of
              None \<Rightarrow>
                if match then (idx', allow, Some (l, urlParams))
                else scan X stk path method idx' allow
            | Some rt \<Rightarrow>
                if \<not> match then scan X stk path method idx' allow
                else
                  (let hasMethod = handlesMethod X rt method;
                       allow' = (if \<not> hasMethod \<and> method = ''OPTIONS''
                                 then allow @ optionsMethods X rt else allow)
                   in if \<not> hasMethod \<and> method \<noteq> ''HEAD''
                      then scan X stk path method idx' allow'
                      else (idx', allow', Some (l, urlParams))))
      else (idx, allow, None))"
  by pat_completeness auto
termination
  by (relation "measure (\<lambda>(X, stk, path, method, idx, allow). length stk - idx)") auto

text \<open>
  The terminal callback as \<^verbatim>\<open>next\<close> sees it (lines 190 to 208). \<open>wrapped\<close> tells whether
  \<^verbatim>\<open>route\<close> replaced \<^verbatim>\<open>done\<close> by the closure that answers OPTIONS requests, which it does
  when the method is OPTIONS on entry. The outcome \<open>Called err\<close> is the call \<^verbatim>\<open>old(err)\<close>
  of the callback \<^verbatim>\<open>route\<close> was given; \<open>Stopped\<close> means that it was not called.
\<close>

definition done_fn :: "ext \<Rightarrow> bool \<Rightarrow> string list \<Rightarrow> error option \<Rightarrow> world \<Rightarrow> world \<times> outcome" where
  "done_fn X wrapped allowOptionsMethods err w =
     (if \<not> wrapped then (w, Called err)
      else if err \<noteq> None \<or> length allowOptionsMethods = 0 then (w, Called err)
      else
        (let w1 = w\<lparr>res := res w @ [HeaderAdd ''Allow'' (Join allowOptionsMethods '','')]\<rparr>
         in case json_Marshal X allowOptionsMethods of
              Inl e \<Rightarrow> (w1, Called (Some e))
            | Inr data \<Rightarrow> (w1\<lparr>res := res w1 @ [Write data]\<rparr>, Stopped)))"

text \<open>
  Modelled from the spec: \<^verbatim>\<open>Route.HTTPHandle\<close> is outside \<^verbatim>\<open>router.go\<close>. A route invoked for a
  request runs the chain registered for the request's method: each handler's continuation
  advances to the next handler of the chain, the last one's is the continuation the router
  passed in, and a handler error goes to that continuation at once.
\<close>

fun chainFor :: "Route \<Rightarrow> string \<Rightarrow> HTTPHandler list" where
  "chainFor (MkRoute p mh) method = (case map_of mh method of None \<Rightarrow> [] | Some hs \<Rightarrow> hs)"

declare scan.simps [simp del]

lemma scan_stop: "\<not> idx < length stk \<Longrightarrow> scan X stk path meth idx allow = (idx, allow, None)"
  by (subst scan.simps) simp

lemma scan_step:
  assumes "idx < length stk" and "matchLayer X (stk ! idx) path = (ps, m)"
  shows "scan X stk path meth idx allow =
     (case layer_route (stk ! idx) of
        None \<Rightarrow> if m then (Suc idx, allow, Some (stk ! idx, ps))
                else scan X stk path meth (Suc idx) allow
      | Some rt \<Rightarrow>
          if \<not> m then scan X stk path meth (Suc idx) allow
          else if \<not> handlesMethod X rt meth \<and> meth \<noteq> ''HEAD''
               then scan X stk path meth (Suc idx)
                      (if meth = ''OPTIONS'' then allow @ optionsMethods X rt else allow)
               else (Suc idx, allow, Some (stk ! idx, ps)))"
  using assms by (subst scan.simps) (auto simp: Let_def split: option.splits)

lemma scan_bounds:
  "scan X stk path meth idx allow = (idx', allow', sel) \<Longrightarrow>
   idx \<le> idx' \<and> (idx < length stk \<longrightarrow> idx < idx' \<and> idx' \<le> length stk)"
proof (induction "length stk - idx" arbitrary: idx allow meth)
  case 0
  then show ?case by (simp add: scan_stop)
next
  case (Suc n)
  then have lt: "idx < length stk" and n: "n = length stk - Suc idx" by simp_all
  obtain ps m where pm: "matchLayer X (stk ! idx) path = (ps, m)"
    by (cases "matchLayer X (stk ! idx) path")
  have rec: "scan X stk path me (Suc idx) a = (idx', allow', sel) \<Longrightarrow>
      Suc idx \<le> idx' \<and> idx' \<le> length stk" for a me
    using Suc.hyps(1)[OF n, of me a] lt
    by (cases "Suc idx < length stk") (auto simp: scan_stop)
  show ?case
    using Suc.prems lt
    by (auto simp: scan_step[OF lt pm] split: option.splits if_splits dest!: rec)
qed

lemma scan_Some:
  "scan X stk path meth idx allow = (idx', allow', Some (l, ps)) \<Longrightarrow>
   idx < idx' \<and> idx' \<le> length stk \<and> l = stk ! (idx' - 1) \<and> matchLayer X l path = (ps, True)"
proof (induction "length stk - idx" arbitrary: idx allow meth)
  case 0
  then show ?case by (simp add: scan_stop)
next
  case (Suc n)
  then have lt: "idx < length stk" and n: "n = length stk - Suc idx" by simp_all
  obtain qs m where pm: "matchLayer X (stk ! idx) path = (qs, m)"
    by (cases "matchLayer X (stk ! idx) path")
  have rec: "scan X stk path me (Suc idx) a = (idx', allow', Some (l, ps)) \<Longrightarrow>
      Suc idx < idx' \<and> idx' \<le> length stk \<and> l = stk ! (idx' - 1) \<and> matchLayer X l path = (ps, True)" for a me
    by (rule Suc.hyps(1)[OF n])
  show ?case
    using Suc.prems lt pm
    by (auto simp: scan_step[OF lt pm] split: option.splits if_splits dest!: rec)
qed

lemma size_nth_layer: "i < length (stk :: layer list) \<Longrightarrow> size (stk ! i) < Suc (size_list size stk)"
  using size_list_estimation'[of "stk ! i" stk "size (stk ! i)" size] by simp

lemma size_map_of_chain:
  "map_of (mh :: (string \<times> HTTPHandler list) list) k = Some hs \<Longrightarrow>
   size_list size hs \<le> size_list (size_prod (\<lambda>x. 0) (size_list size)) mh"
  by (induction mh) (auto split: if_splits)

lemma size_chainFor: "size_list size (chainFor rt m) < size rt"
proof (cases rt)
  case (MkRoute p mh)
  show ?thesis
  proof (cases "map_of mh m")
    case None
    with MkRoute show ?thesis by simp
  next
    case (Some hs)
    with MkRoute size_map_of_chain[OF Some] show ?thesis by simp
  qed
qed

lemma size_scan_handler:
  assumes "scan X (stack this) path method idx allow = (idx', allow', Some (l, ps))"
  shows "size (layer_handler l) < size this"
proof -
  from scan_Some[OF assms] have i: "idx' - 1 < length (stack this)" and l: "l = stack this ! (idx' - 1)"
    by auto
  have "size (layer_handler l) < size l" by (cases l) simp
  also have "size l < Suc (size_list size (stack this))"
    unfolding l by (rule size_nth_layer[OF i])
  also have "\<dots> = size this" by (cases this) simp
  finally show ?thesis .
qed

text \<open>
  \<^verbatim>\<open>HTTPHandle\<close> of the three kinds of handler, \<^verbatim>\<open>route\<close> (lines 186 to 261) and its
  closure \<^verbatim>\<open>next\<close> (lines 210 to 258). The variables \<^verbatim>\<open>idx\<close> and
  \<^verbatim>\<open>allowOptionsMethods\<close> that the closure captures are arguments of \<open>next_fn\<close>; a
  handler that calls its continuation with \<open>e\<close> resumes \<open>next_fn\<close> with the cursor the
  scan left. \<^verbatim>\<open>layer.handleRequest\<close> passes the request to the layer's handler.
\<close>

function HTTPHandle :: "ext \<Rightarrow> HTTPHandler \<Rightarrow> world \<Rightarrow> world \<times> outcome"
  and route :: "ext \<Rightarrow> Router \<Rightarrow> world \<Rightarrow> world \<times> outcome"
  and next_fn :: "ext \<Rightarrow> Router \<Rightarrow> bool \<Rightarrow> nat \<Rightarrow> string list \<Rightarrow> error option \<Rightarrow> world
      \<Rightarrow> world \<times> outcome"
  and runChain :: "ext \<Rightarrow> HTTPHandler list \<Rightarrow> world \<Rightarrow> world \<times> outcome"
where
  "HTTPHandle X (HTTPHandleFunc h) w =
     (case h (req w) of (rq, effs, out) \<Rightarrow> (w\<lparr>req := rq, res := res w @ effs\<rparr>, out))"
| "HTTPHandle X (RouterH r) w = route X r w"
| "HTTPHandle X (RouteH rt) w = runChain X (chainFor rt (Method (req w))) w"
| "route X this w = next_fn X this (Method (req w) = ''OPTIONS'') 0 [] None w"
| "next_fn X this wrapped idx allowOptionsMethods err w =
     (if idx \<ge> length (stack this) then done_fn X wrapped allowOptionsMethods err w
      else
        (let path = TrimPrefix (URL_Path (req w)) (routerPrefix this) in
         if path = [] then done_fn X wrapped allowOptionsMethods err w
         else
           (case scan X (stack this) path (Method (req w)) idx allowOptionsMethods of
              (idx', allow', None) \<Rightarrow> done_fn X wrapped allow' err w
            | (idx', allow', Some (l, urlParams)) \<Rightarrow>
                if err \<noteq> None then done_fn X wrapped allow' err w
                else
                  (case HTTPHandle X (layer_handler l)
                          (w\<lparr>req := registerParamsAsQuery X l (req w) urlParams,
                             handled := handled w @ [layer_path l]\<rparr>) of
                     (w', Stopped) \<Rightarrow> (w', Stopped)
                   | (w', Called e) \<Rightarrow> next_fn X this wrapped idx' allow' e w'))))"
| "runChain X [] w = (w, Called None)"
| "runChain X (h # hs) w =
     (case HTTPHandle X h w of
        (w', Called None) \<Rightarrow> runChain X hs w'
      | (w', Called (Some e)) \<Rightarrow> (w', Called (Some e))
      | (w', Stopped) \<Rightarrow> (w', Stopped))"
  by pat_completeness auto
termination
  apply (relation "inv_image (less_than <*lex*> less_than)
     (\<lambda>x. case x of
        Inl (Inl (X, h, w)) \<Rightarrow> (size h, 0)
      | Inl (Inr (X, r, w)) \<Rightarrow> (size r, Suc (length (stack r)))
      | Inr (Inl (X, r, wr, idx, al, err, w)) \<Rightarrow> (size r, length (stack r) - idx)
      | Inr (Inr (X, hs, w)) \<Rightarrow> (Suc (size_list size hs), 0))")
  subgoal by (intro wf_inv_image wf_lex_prod wf_less_than)
  subgoal by simp
  subgoal for X rt w using size_chainFor[of rt "Method (req w)"] by simp
  subgoal by simp
  subgoal for X this wrapped idx allowOptionsMethods err w path idx' rest allow' sel lp l urlParams
    using size_scan_handler[of X this path "Method (req w)" idx allowOptionsMethods idx' allow' l urlParams]
    by simp
  subgoal for X this wrapped idx allowOptionsMethods err w path idx' rest allow' sel lp l urlParams
  proof -
    assume a: "\<not> length (stack this) \<le> idx" "path = TrimPrefix (URL_Path (req w)) (routerPrefix this)"
      "(idx', rest) = scan X (stack this) path (Method (req w)) idx allowOptionsMethods"
    obtain al s where "rest = (al, s)" by (cases rest)
    with a(3) have "scan X (stack this) path (Method (req w)) idx allowOptionsMethods = (idx', al, s)"
      by simp
    from scan_bounds[OF this] a(1) have "idx < idx'" "idx' \<le> length (stack this)" by simp_all
    then show ?thesis by simp
  qed
  subgoal by simp
  subgoal by simp
  done

declare next_fn.simps [simp del]

section \<open>The routers in memory\<close>

text \<open>
  In Go a Router is reached through a pointer. A layer whose handler is a router holds the
  pointer, and \<^verbatim>\<open>Use\<close> assigns to the router behind it, for every holder of the pointer.
  The routers are therefore kept in a store, from addresses to the struct of the source
  (\<^verbatim>\<open>stack\<close> and \<^verbatim>\<open>routerPrefix\<close>), and a handler that is a router is its address. Every
  address holds a router (no pointer is nil); \<open>allocated\<close> is the address that
  \<^verbatim>\<open>NewRouter\<close> hands out next. A layer is not written once it is appended, and is held by
  value. A Route is written through the pointer that \<^verbatim>\<open>Route\<close> returns; \<^verbatim>\<open>addHandler\<close>, its
  only caller in \<^verbatim>\<open>router.go\<close>, does so at once, before anything else is appended, and the
  Route is held by value in its layer (see \<open>setRoute\<close>).
\<close>

type_synonym addr = nat

datatype HandlerRef =
    FuncRef "Request \<Rightarrow> Request \<times> effect list \<times> outcome"
  | RouterRef addr
  | RouteRef RouteObj
and RouteObj = MkRouteObj (obj_route_path: string)
    (obj_methodHandlers: "(string \<times> HandlerRef list) list")

datatype layerObj = MkLayerObj (obj_layer_path: string) (obj_layer_handler: HandlerRef)
    (obj_layer_end: bool) (obj_layer_route: "RouteObj option")

record RouterObj =
  obj_stack :: "layerObj list"
  obj_routerPrefix :: string

record store =
  routers :: "addr \<Rightarrow> RouterObj"
  allocated :: addr

definition no_routers :: store where
  "no_routers = \<lparr>routers = (\<lambda>a. \<lparr>obj_stack = [], obj_routerPrefix = []\<rparr>), allocated = 0\<rparr>"

text \<open>
  What a dispatch reads from the store: the pointers followed, to the types of the
  dispatch. \<open>deref\<close> is what stands behind the address of a router. \<open>followRouter n\<close>
  follows routers nested at most \<open>n\<close> deep and is \<open>None\<close> when they are nested deeper, as
  they are for every \<open>n\<close> when a router is mounted below itself.
\<close>

fun followHandler :: "(addr \<Rightarrow> Router option) \<Rightarrow> HandlerRef \<Rightarrow> HTTPHandler option"
  and followHandlers :: "(addr \<Rightarrow> Router option) \<Rightarrow> HandlerRef list \<Rightarrow> HTTPHandler list option"
  and followRoute :: "(addr \<Rightarrow> Router option) \<Rightarrow> RouteObj \<Rightarrow> Route option"
  and followChains :: "(addr \<Rightarrow> Router option) \<Rightarrow> (string \<times> HandlerRef list) list
      \<Rightarrow> (string \<times> HTTPHandler list) list option"
where
  "followHandler deref (FuncRef f) = Some (HTTPHandleFunc f)"
| "followHandler deref (RouterRef a) = map_option RouterH (deref a)"
| "followHandler deref (RouteRef r) = map_option RouteH (followRoute deref r)"
| "followHandlers deref [] = Some []"
| "followHandlers deref (h # hs) =
     (case followHandler deref h of
        None \<Rightarrow> None
      | Some h' \<Rightarrow> map_option ((#) h') (followHandlers deref hs))"
| "followRoute deref (MkRouteObj p mh) = map_option (MkRoute p) (followChains deref mh)"
| "followChains deref [] = Some []"
| "followChains deref ((m, hs) # rest) =
     (case followHandlers deref hs of
        None \<Rightarrow> None
      | Some hs' \<Rightarrow> map_option ((#) (m, hs')) (followChains deref rest))"

fun followLayers :: "(addr \<Rightarrow> Router option) \<Rightarrow> layerObj list \<Rightarrow> layer list option" where
  "followLayers deref [] = Some []"
| "followLayers deref (MkLayerObj p h e rt # ls) =
     (case followHandler deref h of
        None \<Rightarrow> None
      | Some h' \<Rightarrow>
          (case (case rt of None \<Rightarrow> Some None
                          | Some r \<Rightarrow> map_option Some (followRoute deref r)) of
             None \<Rightarrow> None
           | Some rt' \<Rightarrow> map_option ((#) (MkLayer p h' e rt')) (followLayers deref ls)))"

fun followRouter :: "nat \<Rightarrow> store \<Rightarrow> addr \<Rightarrow> Router option" where
  "followRouter 0 s a = None"
| "followRouter (Suc n) s a =
     map_option (\<lambda>ls. MkRouter ls (obj_routerPrefix (routers s a)))
       (followLayers (followRouter n s) (obj_stack (routers s a)))"

section \<open>Registration\<close>

text \<open>
  Modelled from the spec: \<^verbatim>\<open>newLayer\<close> and \<^verbatim>\<open>newRoute\<close> are outside \<^verbatim>\<open>router.go\<close>. A new
  layer pairs the pattern with the handler and the flag it is given; a new Route has the
  path and no chain.
\<close>

definition newLayer :: "string \<Rightarrow> HandlerRef \<Rightarrow> bool \<Rightarrow> layerObj" where
  "newLayer path handler end = MkLayerObj path handler end None"

definition newRoute :: "string \<Rightarrow> RouteObj" where
  "newRoute path = MkRouteObj path []"

text \<open>
  Modelled from the spec: \<^verbatim>\<open>Route.GET\<close>, \<^verbatim>\<open>Route.POST\<close> and the other per-method
  registrations are outside \<^verbatim>\<open>router.go\<close>. Registering handlers for a method appends
  them to that method's chain; registrations for the same method accumulate.
\<close>

fun registerChain :: "string \<Rightarrow> HandlerRef list \<Rightarrow> (string \<times> HandlerRef list) list
    \<Rightarrow> (string \<times> HandlerRef list) list" where
  "registerChain method handlers [] = [(method, handlers)]"
| "registerChain method handlers ((m, hs) # rest) =
     (if m = method then (m, hs @ handlers) # rest
      else (m, hs) # registerChain method handlers rest)"

definition registerMethod :: "RouteObj \<Rightarrow> string \<Rightarrow> HandlerRef list \<Rightarrow> RouteObj" where
  "registerMethod rt method handlers =
     MkRouteObj (obj_route_path rt) (registerChain method handlers (obj_methodHandlers rt))"

text \<open>
  \<^verbatim>\<open>func NewRouter() *Router\<close>: a new router with an empty stack and an empty prefix, at
  an address not handed out before.
\<close>

definition NewRouter :: "store \<Rightarrow> store \<times> addr" where
  "NewRouter s =
     (s\<lparr>routers := (routers s)(allocated s := \<lparr>obj_stack = [], obj_routerPrefix = []\<rparr>),
        allocated := Suc (allocated s)\<rparr>,
      allocated s)"

text \<open>
  The two writes of \<^verbatim>\<open>Use\<close>: \<^verbatim>\<open>r.routerPrefix = ...\<close> on the router at \<open>r\<close>, and
  \<^verbatim>\<open>this.stack = append(this.stack, l)\<close>.
\<close>

definition setPrefix :: "store \<Rightarrow> addr \<Rightarrow> string \<Rightarrow> store" where
  "setPrefix s r prefix' =
     s\<lparr>routers := (routers s)(r := (routers s r)\<lparr>obj_routerPrefix := prefix'\<rparr>)\<rparr>"

definition appendLayer :: "store \<Rightarrow> addr \<Rightarrow> layerObj \<Rightarrow> store" where
  "appendLayer s this l =
     s\<lparr>routers := (routers s)(this := (routers s this)\<lparr>obj_stack := obj_stack (routers s this) @ [l]\<rparr>)\<rparr>"

text \<open>
  \<^verbatim>\<open>func (this *Router) Use(path string, handlers ...HTTPHandler) *Router\<close>.
  \<open>useHandler\<close> is the body of the loop (lines 47 to 54): when the handler is a router,
  the router at its address gets the prefix of \<open>this\<close> followed by the path, and whoever
  holds that address sees it; then the layer, with no Route, is appended to the stack of
  \<open>this\<close>, read after the assignment since \<open>this\<close> may be that router. The result of
  \<^verbatim>\<open>Use\<close> is the store; the pointer it returns is \<open>this\<close>.
\<close>

definition useHandler :: "store \<Rightarrow> addr \<Rightarrow> string \<Rightarrow> HandlerRef \<Rightarrow> store" where
  "useHandler s this path handler =
     (let s = (case handler of
                 RouterRef r \<Rightarrow> setPrefix s r (obj_routerPrefix (routers s this) @ path)
               | _ \<Rightarrow> s);
          l = newLayer path handler False;
          l = MkLayerObj (obj_layer_path l) (obj_layer_handler l) (obj_layer_end l) None
      in appendLayer s this l)"

definition Use :: "store \<Rightarrow> addr \<Rightarrow> string \<Rightarrow> HandlerRef list \<Rightarrow> store" where
  "Use s this path0 handlers =
     (let path = (if path0 = [] then ''/'' else path0)
      in foldl (\<lambda>s handler. useHandler s this path handler) s handlers)"

text \<open>\<^verbatim>\<open>func (this *Router) UseFunc(path string, handlers ...HTTPHandleFunc) *Router\<close>\<close>

definition UseFunc :: "store \<Rightarrow> addr \<Rightarrow> string
    \<Rightarrow> (Request \<Rightarrow> Request \<times> effect list \<times> outcome) list \<Rightarrow> store" where
  "UseFunc s this path handlers =
     foldl (\<lambda>s handler. Use s this path [FuncRef handler]) s handlers"

text \<open>
  \<^verbatim>\<open>func (this *Router) Route(path string) *Route\<close>: the store with the new layer on the
  stack of \<open>this\<close>, and the new Route. In Go the result points to the Route the layer holds,
  and registering on it changes that Route; \<open>setRoute\<close> is that write through the pointer,
  to the layer appended last.
\<close>

definition Route :: "store \<Rightarrow> addr \<Rightarrow> string \<Rightarrow> store \<times> RouteObj" where
  "Route s this path =
     (let rt = newRoute path;
          l = newLayer path (RouteRef rt) True;
          l = MkLayerObj (obj_layer_path l) (obj_layer_handler l) (obj_layer_end l) (Some rt)
      in (appendLayer s this l, rt))"

definition setRoute :: "store \<Rightarrow> addr \<Rightarrow> RouteObj \<Rightarrow> store" where
  "setRoute s this rt =
     (case rev (obj_stack (routers s this)) of
        [] \<Rightarrow> s
      | l # ls \<Rightarrow>
          s\<lparr>routers := (routers s)(this := (routers s this)
              \<lparr>obj_stack := rev ls @
                 [MkLayerObj (obj_layer_path l) (RouteRef rt) (obj_layer_end l) (Some rt)]\<rparr>)\<rparr>)"

text \<open>
  \<^verbatim>\<open>func (this *Router) addHandler(method string, path string, handlers ...HTTPHandler)\<close>:
  the \<^verbatim>\<open>switch\<close> registers for the five methods and ignores any other.
\<close>

definition addHandler :: "store \<Rightarrow> addr \<Rightarrow> string \<Rightarrow> string \<Rightarrow> HandlerRef list \<Rightarrow> store" where
  "addHandler s this method path handlers =
     (case Route s this path of
        (s', rt) \<Rightarrow>
          if method = ''GET'' then setRoute s' this (registerMethod rt ''GET'' handlers)
          else if method = ''POST'' then setRoute s' this (registerMethod rt ''POST'' handlers)
          else if method = ''PUT'' then setRoute s' this (registerMethod rt ''PUT'' handlers)
          else if method = ''DELETE'' then setRoute s' this (registerMethod rt ''DELETE'' handlers)
          else if method = ''HEAD'' then setRoute s' this (registerMethod rt ''HEAD'' handlers)
          else s')"

definition GET :: "store \<Rightarrow> addr \<Rightarrow> string \<Rightarrow> HandlerRef list \<Rightarrow> store" where
  "GET s this path handlers = addHandler s this ''GET'' path handlers"

definition POST :: "store \<Rightarrow> addr \<Rightarrow> string \<Rightarrow> HandlerRef list \<Rightarrow> store" where
  "POST s this path handlers = addHandler s this ''POST'' path handlers"

definition PUT :: "store \<Rightarrow> addr \<Rightarrow> string \<Rightarrow> HandlerRef list \<Rightarrow> store" where
  "PUT s this path handlers = addHandler s this ''PUT'' path handlers"

definition DELETE :: "store \<Rightarrow> addr \<Rightarrow> string \<Rightarrow> HandlerRef list \<Rightarrow> store" where
  "DELETE s this path handlers = addHandler s this ''DELETE'' path handlers"

definition HEAD :: "store \<Rightarrow> addr \<Rightarrow> string \<Rightarrow> HandlerRef list \<Rightarrow> store" where
  "HEAD s this path handlers = addHandler s this ''HEAD'' path handlers"

section \<open>The root entry point\<close>

text \<open>
  \<^verbatim>\<open>func (this Router) ServeHTTP(rw http.ResponseWriter, req *http.Request)\<close>: the
  terminal callback answers an error with \<^verbatim>\<open>http.Error\<close> and status 500, and no error
  with \<^verbatim>\<open>http.NotFound\<close>.
\<close>

definition ServeHTTP :: "ext \<Rightarrow> Router \<Rightarrow> world \<Rightarrow> world" where
  "ServeHTTP X this w =
     (case route X this w of
        (w', Called (Some e)) \<Rightarrow> w'\<lparr>res := res w' @ [HttpError ''Something wrong'' 500]\<rparr>
      | (w', Called None) \<Rightarrow> w'\<lparr>res := res w' @ [NotFound]\<rparr>
      | (w', Stopped) \<Rightarrow> w')"

text \<open>
  The root entry point of the router at an address: \<^verbatim>\<open>ServeHTTP\<close> on what the store holds
  when the request comes in. It is defined when the routers below the address are nested
  at most \<open>n\<close> deep.
\<close>

definition serve :: "ext \<Rightarrow> nat \<Rightarrow> store \<Rightarrow> addr \<Rightarrow> world \<Rightarrow> world option" where
  "serve X n s this w = map_option (\<lambda>r. ServeHTTP X r w) (followRouter n s this)"

section \<open>The collaborators, as the specification describes them\<close>

text \<open>
  Modelled from the spec: the pattern matcher (\<^verbatim>\<open>layer.match\<close>) is outside \<^verbatim>\<open>router.go\<close>.
  A path and a pattern are compared segment by segment, a segment being what stands
  between two \<open>/\<close>. A pattern segment that starts with \<open>:\<close> captures the path's segment
  under its name; any other must equal it. A pattern registered by \<^verbatim>\<open>Use\<close> matches
  every path whose first segments it matches; the pattern of a Route must match all of
  them. A rejected path captures nothing.
\<close>

fun splitPath :: "string \<Rightarrow> string list" where
  "splitPath [] = [[]]"
| "splitPath (c # cs) =
     (if c = CHR ''/'' then [] # splitPath cs
      else (case splitPath cs of [] \<Rightarrow> [[c]] | s # ss \<Rightarrow> (c # s) # ss))"

definition segments :: "string \<Rightarrow> string list" where
  "segments s = filter (\<lambda>x. x \<noteq> []) (splitPath s)"

fun capture :: "string \<Rightarrow> string \<Rightarrow> url_Values \<Rightarrow> url_Values" where
  "capture name v [] = [(name, [v])]"
| "capture name v ((k, vs) # rest) =
     (if k = name then (k, v # vs) # rest else (k, vs) # capture name v rest)"

fun matchSegments :: "bool \<Rightarrow> string list \<Rightarrow> string list \<Rightarrow> url_Values option" where
  "matchSegments end [] ps = (if end \<and> ps \<noteq> [] then None else Some [])"
| "matchSegments end (p # pat) [] = None"
| "matchSegments end (p # pat) (s # ps) =
     (case p of
        c # name \<Rightarrow>
          if c = CHR '':'' then map_option (capture name s) (matchSegments end pat ps)
          else if p = s then matchSegments end pat ps else None
      | [] \<Rightarrow> if p = s then matchSegments end pat ps else None)"

definition spec_match :: "string \<Rightarrow> bool \<Rightarrow> string \<Rightarrow> url_Values \<times> bool" where
  "spec_match pattern end path =
     (case matchSegments end (segments pattern) (segments path) of
        None \<Rightarrow> ([], False)
      | Some params \<Rightarrow> (params, True))"

text \<open>
  Modelled from the spec: \<^verbatim>\<open>Route.handlesMethod\<close> and \<^verbatim>\<open>Route.optionsMethods\<close> are
  outside \<^verbatim>\<open>router.go\<close>. A Route handles a method that has a non-empty chain, and HEAD
  when GET has one; its options are the methods with a non-empty chain.
\<close>

definition spec_handlesMethod :: "Route \<Rightarrow> string \<Rightarrow> bool" where
  "spec_handlesMethod rt method =
     (chainFor rt method \<noteq> [] \<or> (method = ''HEAD'' \<and> chainFor rt ''GET'' \<noteq> []))"

definition spec_optionsMethods :: "Route \<Rightarrow> string list" where
  "spec_optionsMethods rt = map fst (filter (\<lambda>(m, hs). hs \<noteq> []) (methodHandlers rt))"

text \<open>
  Modelled from the spec: \<^verbatim>\<open>layer.registerParamsAsQuery\<close> is outside \<^verbatim>\<open>router.go\<close>. The
  captured parameters are added to the request's queryable parameters; under a key that
  is already there the captured values follow the ones present.
\<close>

fun addValues :: "string \<Rightarrow> string list \<Rightarrow> url_Values \<Rightarrow> url_Values" where
  "addValues k vs [] = [(k, vs)]"
| "addValues k vs ((k', vs') # rest) =
     (if k' = k then (k', vs' @ vs) # rest else (k', vs') # addValues k vs rest)"

definition spec_registerParamsAsQuery :: "layer \<Rightarrow> Request \<Rightarrow> url_Values \<Rightarrow> Request" where
  "spec_registerParamsAsQuery l rq urlParams =
     rq\<lparr>Query := foldl (\<lambda>q (k, vs). addValues k vs q) (Query rq) urlParams\<rparr>"

text \<open>
  \<^verbatim>\<open>json.Marshal\<close> of a slice of method names: a JSON array of strings (no character of
  a method name needs an escape). It returns no error.
\<close>

definition jsonStrings :: "string list \<Rightarrow> string" where
  "jsonStrings xs = ''['' @ Join (map (\<lambda>x. [CHR 0x22] @ x @ [CHR 0x22]) xs) '','' @ '']''"

definition grest :: ext where
  "grest = \<lparr>layer_match = spec_match,
            handlesMethod = spec_handlesMethod,
            optionsMethods = spec_optionsMethods,
            registerParamsAsQuery = spec_registerParamsAsQuery,
            json_Marshal = (\<lambda>xs. Inr (jsonStrings xs))\<rparr>"

section \<open>Notions used in the statements\<close>

text \<open>
  A layer is usable for a path and a method when the loop of \<^verbatim>\<open>next\<close> leaves with it: its
  pattern matches the path and it has no Route, or its Route handles the method, or the
  method is HEAD.
\<close>

definition usable :: "ext \<Rightarrow> string \<Rightarrow> string \<Rightarrow> layer \<Rightarrow> bool" where
  "usable X path meth l =
     (snd (matchLayer X l path) \<and>
      (case layer_route l of
         None \<Rightarrow> True
       | Some rt \<Rightarrow> handlesMethod X rt meth \<or> meth = ''HEAD''))"

text \<open>
  What a layer adds to the allowed methods of an OPTIONS request, in the words of the
  specification: the \<^verbatim>\<open>optionsMethods()\<close> of its Route when the pattern matches the path
  and the Route does not handle OPTIONS, and nothing otherwise.
\<close>

definition claimedOptions :: "ext \<Rightarrow> string \<Rightarrow> layer \<Rightarrow> string list" where
  "claimedOptions X path l =
     (case layer_route l of
        None \<Rightarrow> []
      | Some rt \<Rightarrow>
          if snd (matchLayer X l path) \<and> \<not> handlesMethod X rt ''OPTIONS''
          then optionsMethods X rt else [])"

section \<open>Handlers, requests and routers used as examples\<close>

text \<open>
  \<open>hello\<close> and \<open>say s\<close> answer and end the chain; \<open>denied\<close> calls its continuation with
  an error. \<open>request m p\<close> is a fresh request with method \<open>m\<close> and path \<open>p\<close>, nothing
  written yet.
\<close>

definition hello :: "Request \<Rightarrow> Request \<times> effect list \<times> outcome" where
  "hello rq = (rq, [Write ''hello''], Stopped)"

definition denied :: "Request \<Rightarrow> Request \<times> effect list \<times> outcome" where
  "denied rq = (rq, [], Called (Some (Err ''denied'')))"

definition request :: "string \<Rightarrow> string \<Rightarrow> world" where
  "request m p = \<lparr>req = \<lparr>Method = m, URL_Path = p, Query = []\<rparr>, res = [], handled = []\<rparr>"

definition say :: "string \<Rightarrow> Request \<Rightarrow> Request \<times> effect list \<times> outcome" where
  "say s rq = (rq, [Write s], Stopped)"

text \<open>
  Each example is given twice: by the calls that register it, on the store, and as the
  router a dispatch reads once those calls are made. That the second is what
  \<open>followRouter\<close> finds in the first is proved with the lemmas.

  \<open>route_layer\<close> is the layer that \<^verbatim>\<open>addHandler\<close> appends for one method, as read by a
  dispatch. \<open>guarded\<close> and \<open>guarded_params\<close>: a filter that refuses every request, then a
  GET route. \<open>three\<close>: a POST route and two GET routes on one path. \<open>get_post\<close>,
  \<open>get_only\<close>, \<open>post_only\<close>: routes on \<open>/x\<close>.
\<close>

definition route_layer :: "string \<Rightarrow> string \<Rightarrow> HTTPHandler list \<Rightarrow> layer" where
  "route_layer path meth handlers =
     MkLayer path (RouteH (MkRoute path [(meth, handlers)])) True
       (Some (MkRoute path [(meth, handlers)]))"

definition guarded_store :: store where
  "guarded_store =
     (case NewRouter no_routers of
        (s, a) \<Rightarrow> GET (UseFunc s a ''/'' [denied]) a ''/x'' [FuncRef hello])"

definition guarded :: Router where
  "guarded = MkRouter [MkLayer ''/'' (HTTPHandleFunc denied) False None,
                       route_layer ''/x'' ''GET'' [HTTPHandleFunc hello]] []"

definition guarded_params_store :: store where
  "guarded_params_store =
     (case NewRouter no_routers of
        (s, a) \<Rightarrow> GET (UseFunc s a ''/'' [denied]) a ''/users/:id'' [FuncRef hello])"

definition guarded_params :: Router where
  "guarded_params = MkRouter [MkLayer ''/'' (HTTPHandleFunc denied) False None,
                              route_layer ''/users/:id'' ''GET'' [HTTPHandleFunc hello]] []"

definition three_store :: store where
  "three_store =
     (case NewRouter no_routers of
        (s, a) \<Rightarrow>
          GET (GET (POST s a ''/x'' [FuncRef (say ''first'')])
                 a ''/x'' [FuncRef (say ''second'')])
            a ''/x'' [FuncRef (say ''third'')])"

definition three :: Router where
  "three = MkRouter [route_layer ''/x'' ''POST'' [HTTPHandleFunc (say ''first'')],
                     route_layer ''/x'' ''GET'' [HTTPHandleFunc (say ''second'')],
                     route_layer ''/x'' ''GET'' [HTTPHandleFunc (say ''third'')]] []"

definition get_post_store :: store where
  "get_post_store =
     (case NewRouter no_routers of
        (s, a) \<Rightarrow> POST (GET s a ''/x'' [FuncRef hello]) a ''/x'' [FuncRef hello])"

definition get_post :: Router where
  "get_post = MkRouter [route_layer ''/x'' ''GET'' [HTTPHandleFunc hello],
                        route_layer ''/x'' ''POST'' [HTTPHandleFunc hello]] []"

definition get_only_store :: store where
  "get_only_store = (case NewRouter no_routers of (s, a) \<Rightarrow> GET s a ''/x'' [FuncRef hello])"

definition get_only :: Router where
  "get_only = MkRouter [route_layer ''/x'' ''GET'' [HTTPHandleFunc hello]] []"

definition post_only_store :: store where
  "post_only_store = (case NewRouter no_routers of (s, a) \<Rightarrow> POST s a ''/x'' [FuncRef hello])"

definition post_only :: Router where
  "post_only = MkRouter [route_layer ''/x'' ''POST'' [HTTPHandleFunc hello]] []"

text \<open>
  \<open>users_store\<close> holds a router at address 0 and, at address 1, a router with a GET route
  on \<open>/users\<close>, which a dispatch reads as \<open>users_router\<close>. In \<open>api_store\<close> the first has
  mounted the second at \<open>/api\<close>: the second is then read as \<open>mounted_users\<close>, with the
  prefix \<open>/api\<close>, and the first as \<open>api\<close>. \<open>api_fallback\<close> has one more filter after the
  mounted router. In \<open>twice_store\<close> the second router is mounted at \<open>/a\<close> and then at
  \<open>/b\<close>.
\<close>

definition users_store :: store where
  "users_store =
     (case NewRouter no_routers of
        (s, a) \<Rightarrow> case NewRouter s of (s, u) \<Rightarrow> GET s u ''/users'' [FuncRef hello])"

definition users_router :: Router where
  "users_router = MkRouter [route_layer ''/users'' ''GET'' [HTTPHandleFunc hello]] []"

definition api_store :: store where
  "api_store = Use users_store 0 ''/api'' [RouterRef 1]"

definition mounted_users :: Router where
  "mounted_users = MkRouter (stack users_router) ''/api''"

definition api :: Router where
  "api = MkRouter [MkLayer ''/api'' (RouterH mounted_users) False None] []"

definition api_fallback_store :: store where
  "api_fallback_store = UseFunc api_store 0 ''/'' [hello]"

definition api_fallback :: Router where
  "api_fallback = MkRouter [MkLayer ''/api'' (RouterH mounted_users) False None,
                            MkLayer ''/'' (HTTPHandleFunc hello) False None] []"

definition twice_store :: store where
  "twice_store = Use (Use users_store 0 ''/a'' [RouterRef 1]) 0 ''/b'' [RouterRef 1]"

text \<open>
  \<open>outer_store\<close> holds three routers: the one at address 2 has a filter on \<open>/\<close>, the one
  at address 1 mounts it at \<open>/api\<close> (\<open>api_any_store\<close>), and the one at address 0 then
  mounts that one at \<open>/v1\<close>. \<open>inner_any\<close> is the innermost before it is mounted,
  \<open>mounted_any\<close> after, with the prefix \<open>/api\<close>; \<open>api_any\<close> is the router at address 1
  before it is mounted, \<open>outer\<close> the root.
\<close>

definition api_any_store :: store where
  "api_any_store =
     (case NewRouter no_routers of
        (s, a) \<Rightarrow> case NewRouter s of
          (s, m) \<Rightarrow> case NewRouter s of
            (s, i) \<Rightarrow> Use (UseFunc s i ''/'' [hello]) m ''/api'' [RouterRef i])"

definition outer_store :: store where
  "outer_store = Use api_any_store 0 ''/v1'' [RouterRef 1]"

definition inner_any :: Router where
  "inner_any = MkRouter [MkLayer ''/'' (HTTPHandleFunc hello) False None] []"

definition mounted_any :: Router where
  "mounted_any = MkRouter (stack inner_any) ''/api''"

definition api_any :: Router where
  "api_any = MkRouter [MkLayer ''/api'' (RouterH mounted_any) False None] []"

definition outer :: Router where
  "outer = MkRouter [MkLayer ''/v1''
     (RouterH (MkRouter [MkLayer ''/api'' (RouterH mounted_any) False None] ''/v1''))
     False None] []"

text \<open>
  \<open>mounted_route g\<close>: a router that has mounted at \<open>/api\<close> a router with a GET route on
  \<open>/users\<close> handled by \<open>g\<close>, as a dispatch reads it. \<open>failing_encoder\<close>: the collaborators
  of \<open>grest\<close> with an encoder that returns an error.
\<close>

definition mounted_route :: "(Request \<Rightarrow> Request \<times> effect list \<times> outcome) \<Rightarrow> Router" where
  "mounted_route g =
     MkRouter [MkLayer ''/api''
       (RouterH (MkRouter [route_layer ''/users'' ''GET'' [HTTPHandleFunc g]] ''/api'')) False None] []"

definition failing_encoder :: ext where
  "failing_encoder = grest\<lparr>json_Marshal := (\<lambda>xs. Inl (Err ''unsupported value''))\<rparr>"

section \<open>Lemmas\<close>

subsection \<open>Unfolding \<open>next\<close>\<close>

lemma done_fn_error: "done_fn X wrapped allow (Some e) w = (w, Called (Some e))"
  by (simp add: done_fn_def)

lemma done_fn_plain: "done_fn X False allow err w = (w, Called err)"
  by (simp add: done_fn_def)

lemma done_fn_no_methods: "done_fn X wrapped [] err w = (w, Called err)"
  by (simp add: done_fn_def)

lemma next_fn_end:
  "length (stack this) \<le> idx \<Longrightarrow> next_fn X this wrapped idx allow err w = done_fn X wrapped allow err w"
  by (subst next_fn.simps) simp

lemma next_fn_empty:
  "TrimPrefix (URL_Path (req w)) (routerPrefix this) = [] \<Longrightarrow>
   next_fn X this wrapped idx allow err w = done_fn X wrapped allow err w"
  by (subst next_fn.simps) simp

lemma next_fn_exhausted:
  assumes "TrimPrefix (URL_Path (req w)) (routerPrefix this) = path" and "path \<noteq> []"
    and "scan X (stack this) path (Method (req w)) idx allow = (idx', allow', None)"
  shows "next_fn X this wrapped idx allow err w = done_fn X wrapped allow' err w"
proof (cases "idx < length (stack this)")
  case True
  with assms show ?thesis by (subst next_fn.simps) simp
next
  case False
  with assms(3) have "allow' = allow" by (simp add: scan_stop)
  with False show ?thesis by (simp add: next_fn_end)
qed

lemma next_fn_selected:
  assumes "TrimPrefix (URL_Path (req w)) (routerPrefix this) = path" and "path \<noteq> []"
    and "scan X (stack this) path (Method (req w)) idx allow = (idx', allow', Some (l, urlParams))"
  shows "next_fn X this wrapped idx allow None w =
     (case HTTPHandle X (layer_handler l)
             (w\<lparr>req := registerParamsAsQuery X l (req w) urlParams,
                handled := handled w @ [layer_path l]\<rparr>) of
        (w', Stopped) \<Rightarrow> (w', Stopped)
      | (w', Called e) \<Rightarrow> next_fn X this wrapped idx' allow' e w')"
proof -
  from assms(3) have "idx < length (stack this)"
    by (cases "idx < length (stack this)") (simp_all add: scan_stop)
  with assms show ?thesis by (subst next_fn.simps) simp
qed

lemma next_fn_error: "next_fn X this wrapped idx allow (Some e) w = (w, Called (Some e))"
proof (cases "idx < length (stack this) \<and> TrimPrefix (URL_Path (req w)) (routerPrefix this) \<noteq> []")
  case False
  then show ?thesis
    by (auto simp: next_fn_end next_fn_empty done_fn_error)
next
  case True
  then show ?thesis
    by (subst next_fn.simps) (simp add: done_fn_error split: prod.splits option.splits)
qed

subsection \<open>The scan\<close>

lemma scan_usable:
  assumes "idx < length stk" and "usable X path meth (stk ! idx)"
  shows "scan X stk path meth idx allow =
     (Suc idx, allow @ (if meth = ''OPTIONS'' then claimedOptions X path (stk ! idx) else []),
      Some (stk ! idx, fst (matchLayer X (stk ! idx) path)))"
proof -
  obtain ps m where pm: "matchLayer X (stk ! idx) path = (ps, m)"
    by (cases "matchLayer X (stk ! idx) path")
  with assms(2) show ?thesis
    by (auto simp: scan_step[OF assms(1) pm] usable_def claimedOptions_def split: option.splits)
qed

lemma scan_unusable:
  assumes "idx < length stk" and "\<not> usable X path meth (stk ! idx)"
  shows "scan X stk path meth idx allow =
     scan X stk path meth (Suc idx)
       (allow @ (if meth = ''OPTIONS'' then claimedOptions X path (stk ! idx) else []))"
proof -
  obtain ps m where pm: "matchLayer X (stk ! idx) path = (ps, m)"
    by (cases "matchLayer X (stk ! idx) path")
  with assms(2) show ?thesis
    by (auto simp: scan_step[OF assms(1) pm] usable_def claimedOptions_def split: option.splits)
qed

lemma scan_first_usable:
  "scan X stk path meth idx allow = (idx', allow', sel) \<Longrightarrow>
   (case sel of
      None \<Rightarrow> idx' = max idx (length stk) \<and>
              (\<forall>j. idx \<le> j \<and> j < length stk \<longrightarrow> \<not> usable X path meth (stk ! j))
    | Some (l, ps) \<Rightarrow> idx < idx' \<and> idx' \<le> length stk \<and> l = stk ! (idx' - 1) \<and>
              ps = fst (matchLayer X l path) \<and> usable X path meth l \<and>
              (\<forall>j. idx \<le> j \<and> j < idx' - 1 \<longrightarrow> \<not> usable X path meth (stk ! j)))"
proof (induction "length stk - idx" arbitrary: idx allow)
  case 0
  then show ?case by (auto simp: scan_stop)
next
  case (Suc n)
  then have lt: "idx < length stk" and n: "n = length stk - Suc idx" by simp_all
  show ?case
  proof (cases "usable X path meth (stk ! idx)")
    case True
    with Suc.prems lt show ?thesis by (auto simp: scan_usable)
  next
    case False
    let ?a = "allow @ (if meth = ''OPTIONS'' then claimedOptions X path (stk ! idx) else [])"
    from Suc.prems have s: "scan X stk path meth (Suc idx) ?a = (idx', allow', sel)"
      by (simp add: scan_unusable[OF lt False])
    from Suc.hyps(1)[OF n s] lt False show ?thesis
      by (auto split: option.splits simp: Suc_le_eq) (metis le_neq_implies_less)+
  qed
qed

lemma scan_options:
  "scan X stk path ''OPTIONS'' idx allow = (idx', allow', sel) \<Longrightarrow>
   allow' = allow @ concat (map (claimedOptions X path) (take (idx' - idx) (drop idx stk)))"
proof (induction "length stk - idx" arbitrary: idx allow)
  case 0
  then show ?case by (auto simp: scan_stop)
next
  case (Suc n)
  then have lt: "idx < length stk" and n: "n = length stk - Suc idx" by simp_all
  have dr: "drop idx stk = stk ! idx # drop (Suc idx) stk"
    using lt by (simp add: Cons_nth_drop_Suc)
  show ?case
  proof (cases "usable X path ''OPTIONS'' (stk ! idx)")
    case True
    with Suc.prems lt dr show ?thesis by (auto simp: scan_usable)
  next
    case False
    from Suc.prems have s: "scan X stk path ''OPTIONS'' (Suc idx)
        (allow @ claimedOptions X path (stk ! idx)) = (idx', allow', sel)"
      by (simp add: scan_unusable[OF lt False])
    from scan_bounds[OF s] have "Suc idx \<le> idx'" by simp
    then have "idx' - idx = Suc (idx' - Suc idx)" by simp
    with Suc.hyps(1)[OF n s] dr show ?thesis by simp
  qed
qed

lemma scan_no_match:
  "\<forall>l \<in> set stk. \<not> snd (matchLayer X l path) \<Longrightarrow>
   scan X stk path meth idx allow = (max idx (length stk), allow, None)"
proof (induction "length stk - idx" arbitrary: idx)
  case 0
  then show ?case by (simp add: scan_stop max_def)
next
  case (Suc n)
  then have lt: "idx < length stk" and n: "n = length stk - Suc idx" by simp_all
  with Suc.prems have "\<not> snd (matchLayer X (stk ! idx) path)" by simp
  then have "\<not> usable X path meth (stk ! idx)" and "claimedOptions X path (stk ! idx) = []"
    by (simp_all add: usable_def claimedOptions_def split: option.splits)
  with Suc.hyps(1)[OF n Suc.prems] lt show ?case
    by (auto simp: scan_unusable max_def)
qed

lemma two_routes_scan:
  assumes "layer_route l1 = Some r1" and "layer_route l2 = Some r2"
    and "snd (matchLayer X l1 path)" and "snd (matchLayer X l2 path)"
    and "\<not> handlesMethod X r1 ''OPTIONS''" and "\<not> handlesMethod X r2 ''OPTIONS''"
  shows "scan X [l1, l2] path ''OPTIONS'' 0 [] =
    (2, optionsMethods X r1 @ optionsMethods X r2, None)"
proof -
  have u1: "\<not> usable X path ''OPTIONS'' ([l1, l2] ! 0)"
    and u2: "\<not> usable X path ''OPTIONS'' ([l1, l2] ! Suc 0)"
    using assms by (simp_all add: usable_def)
  have c1: "claimedOptions X path l1 = optionsMethods X r1"
    and c2: "claimedOptions X path l2 = optionsMethods X r2"
    using assms by (simp_all add: claimedOptions_def)
  have "scan X [l1, l2] path ''OPTIONS'' 0 [] =
      scan X [l1, l2] path ''OPTIONS'' (Suc 0) (optionsMethods X r1)"
    using scan_unusable[OF _ u1, of "[]"] c1 by simp
  also have "\<dots> = scan X [l1, l2] path ''OPTIONS'' (Suc (Suc 0))
      (optionsMethods X r1 @ optionsMethods X r2)"
    using scan_unusable[OF _ u2, of "optionsMethods X r1"] c2 by simp
  also have "\<dots> = (2, optionsMethods X r1 @ optionsMethods X r2, None)"
    by (simp add: scan_stop numeral_2_eq_2)
  finally show ?thesis .
qed

subsection \<open>The layers before the cursor\<close>

lemma scan_suffix:
  "length stk = length stk' \<Longrightarrow> drop idx stk = drop idx stk' \<Longrightarrow>
   scan X stk path meth idx allow = scan X stk' path meth idx allow"
proof (induction "length stk - idx" arbitrary: idx allow)
  case 0
  then show ?case by (simp add: scan_stop)
next
  case (Suc n)
  then have lt: "idx < length stk" and lt': "idx < length stk'"
    and n: "n = length stk - Suc idx" by simp_all
  have "drop idx stk = stk ! idx # drop (Suc idx) stk"
    and "drop idx stk' = stk' ! idx # drop (Suc idx) stk'"
    using lt lt' by (simp_all add: Cons_nth_drop_Suc)
  with Suc.prems(2) have hd: "stk ! idx = stk' ! idx"
    and tl: "drop (Suc idx) stk = drop (Suc idx) stk'" by simp_all
  obtain ps m where pm: "matchLayer X (stk ! idx) path = (ps, m)"
    by (cases "matchLayer X (stk ! idx) path")
  then have pm': "matchLayer X (stk' ! idx) path = (ps, m)" by (simp add: hd)
  have rec: "scan X stk path meth (Suc idx) a = scan X stk' path meth (Suc idx) a" for a
    by (rule Suc.hyps(1)[OF n Suc.prems(1) tl])
  show ?case
    by (simp add: scan_step[OF lt pm] scan_step[OF lt' pm'] rec hd split: option.splits)
qed

lemma next_fn_suffix:
  "length (stack this) = length (stack that) \<Longrightarrow> routerPrefix this = routerPrefix that \<Longrightarrow>
   drop idx (stack this) = drop idx (stack that) \<Longrightarrow>
   next_fn X this wrapped idx allow err w = next_fn X that wrapped idx allow err w"
proof (induction "length (stack this) - idx" arbitrary: idx allow err w rule: less_induct)
  case less
  let ?path = "TrimPrefix (URL_Path (req w)) (routerPrefix this)"
  have p': "TrimPrefix (URL_Path (req w)) (routerPrefix that) = ?path"
    by (simp add: less.prems(2))
  show ?case
  proof (cases "idx < length (stack this) \<and> ?path \<noteq> [] \<and> err = None")
    case False
    with less.prems(1) p' show ?thesis
      by (cases err) (auto simp: next_fn_end next_fn_empty next_fn_error)
  next
    case True
    then have lt: "idx < length (stack this)" and ne: "?path \<noteq> []" and err: "err = None"
      by simp_all
    obtain idx' allow' sel where s: "scan X (stack this) ?path (Method (req w)) idx allow =
        (idx', allow', sel)" by (cases "scan X (stack this) ?path (Method (req w)) idx allow")
    then have s': "scan X (stack that) ?path (Method (req w)) idx allow = (idx', allow', sel)"
      using scan_suffix[OF less.prems(1) less.prems(3)] by simp
    show ?thesis
    proof (cases sel)
      case None
      have "next_fn X this wrapped idx allow err w = done_fn X wrapped allow' err w"
        using s unfolding None by (rule next_fn_exhausted[OF refl ne])
      moreover have "next_fn X that wrapped idx allow err w = done_fn X wrapped allow' err w"
        using s' unfolding None by (rule next_fn_exhausted[OF p' ne])
      ultimately show ?thesis by simp
    next
      case (Some lp)
      obtain l ps where lp: "lp = (l, ps)" by (cases lp)
      from scan_bounds[OF s] lt have b: "idx < idx'" "idx' \<le> length (stack this)" by simp_all
      have d: "drop idx' (stack this) = drop idx' (stack that)"
      proof -
        have "drop idx' (stack this) = drop (idx' - idx) (drop idx (stack this))"
          using b by simp
        also have "\<dots> = drop (idx' - idx) (drop idx (stack that))"
          by (simp only: less.prems(3))
        also have "\<dots> = drop idx' (stack that)" using b by simp
        finally show ?thesis .
      qed
      have rec: "next_fn X this wrapped idx' allow' e v = next_fn X that wrapped idx' allow' e v"
        for e v
        using b lt by (intro less.hyps[OF _ less.prems(1) less.prems(2) d]) simp
      have "next_fn X this wrapped idx allow None w =
          (case HTTPHandle X (layer_handler l)
               (w\<lparr>req := registerParamsAsQuery X l (req w) ps,
                  handled := handled w @ [layer_path l]\<rparr>) of
             (w', Stopped) \<Rightarrow> (w', Stopped)
           | (w', Called e) \<Rightarrow> next_fn X this wrapped idx' allow' e w')"
        using s unfolding Some lp by (rule next_fn_selected[OF refl ne])
      moreover have "next_fn X that wrapped idx allow None w =
          (case HTTPHandle X (layer_handler l)
               (w\<lparr>req := registerParamsAsQuery X l (req w) ps,
                  handled := handled w @ [layer_path l]\<rparr>) of
             (w', Stopped) \<Rightarrow> (w', Stopped)
           | (w', Called e) \<Rightarrow> next_fn X that wrapped idx' allow' e w')"
        using s' unfolding Some lp by (rule next_fn_selected[OF p' ne])
      ultimately show ?thesis using err by (simp add: rec split: prod.splits outcome.splits)
    qed
  qed
qed

subsection \<open>Registration\<close>

lemma useHandler_router:
  "obj_routerPrefix (routers (useHandler s this p (RouterRef r)) r) =
     obj_routerPrefix (routers s this) @ p"
  by (simp add: useHandler_def setPrefix_def appendLayer_def newLayer_def)

lemma useHandler_stack:
  "obj_stack (routers (useHandler s this p h) this) =
     obj_stack (routers s this) @ [MkLayerObj p h False None]"
  by (cases h) (simp_all add: useHandler_def setPrefix_def appendLayer_def newLayer_def)

lemma useHandler_other_stack:
  "a \<noteq> this \<Longrightarrow> obj_stack (routers (useHandler s this p h) a) = obj_stack (routers s a)"
  by (cases h) (simp_all add: useHandler_def setPrefix_def appendLayer_def newLayer_def)

lemma useHandler_other_prefix:
  "h \<noteq> RouterRef a \<Longrightarrow>
   obj_routerPrefix (routers (useHandler s this p h) a) = obj_routerPrefix (routers s a)"
  by (cases h) (auto simp: useHandler_def setPrefix_def appendLayer_def newLayer_def)

lemma useHandler_allocated: "allocated (useHandler s this p h) = allocated s"
  by (cases h) (simp_all add: useHandler_def setPrefix_def appendLayer_def newLayer_def)

lemma use_loop:
  assumes "RouterRef this \<notin> set hs"
  shows "obj_routerPrefix (routers (foldl (\<lambda>s h. useHandler s this p h) s hs) this) =
           obj_routerPrefix (routers s this) \<and>
         obj_stack (routers (foldl (\<lambda>s h. useHandler s this p h) s hs) this) =
           obj_stack (routers s this) @ map (\<lambda>h. MkLayerObj p h False None) hs \<and>
         (\<forall>r. RouterRef r \<in> set hs \<longrightarrow>
            obj_routerPrefix (routers (foldl (\<lambda>s h. useHandler s this p h) s hs) r) =
              obj_routerPrefix (routers s this) @ p) \<and>
         (\<forall>a. RouterRef a \<notin> set hs \<longrightarrow>
            obj_routerPrefix (routers (foldl (\<lambda>s h. useHandler s this p h) s hs) a) =
              obj_routerPrefix (routers s a)) \<and>
         (\<forall>a. a \<noteq> this \<longrightarrow>
            obj_stack (routers (foldl (\<lambda>s h. useHandler s this p h) s hs) a) =
              obj_stack (routers s a))"
  using assms
proof (induction hs rule: rev_induct)
  case Nil
  show ?case by simp
next
  case (snoc h hs)
  let ?s = "foldl (\<lambda>s h. useHandler s this p h) s hs"
  from snoc.prems have nt: "RouterRef this \<notin> set hs" and hn: "h \<noteq> RouterRef this" by auto
  note IH = snoc.IH[OF nt]
  have a: "obj_routerPrefix (routers (useHandler ?s this p h) this) = obj_routerPrefix (routers s this)"
    using IH hn by (simp add: useHandler_other_prefix)
  have b: "obj_stack (routers (useHandler ?s this p h) this) =
      obj_stack (routers s this) @ map (\<lambda>h. MkLayerObj p h False None) (hs @ [h])"
    using IH by (simp add: useHandler_stack)
  have c: "obj_routerPrefix (routers (useHandler ?s this p h) r) = obj_routerPrefix (routers s this) @ p"
    if "RouterRef r \<in> set (hs @ [h])" for r
  proof (cases "h = RouterRef r")
    case True
    with IH show ?thesis by (simp add: useHandler_router)
  next
    case False
    with that IH show ?thesis by (simp add: useHandler_other_prefix)
  qed
  have d: "obj_routerPrefix (routers (useHandler ?s this p h) a) = obj_routerPrefix (routers s a)"
    if "RouterRef a \<notin> set (hs @ [h])" for a
  proof -
    from that have "h \<noteq> RouterRef a" and "RouterRef a \<notin> set hs" by auto
    with IH show ?thesis by (simp add: useHandler_other_prefix)
  qed
  have e: "obj_stack (routers (useHandler ?s this p h) a) = obj_stack (routers s a)"
    if "a \<noteq> this" for a
    using that IH by (simp add: useHandler_other_stack)
  from a b c d e show ?case by simp
qed

subsection \<open>The examples, evaluated\<close>

lemmas registration_defs = GET_def POST_def addHandler_def Route_def setRoute_def
  registerMethod_def newRoute_def newLayer_def UseFunc_def Use_def useHandler_def setPrefix_def
  appendLayer_def NewRouter_def no_routers_def Let_def

lemmas grest_defs = grest_def matchLayer_def spec_match_def segments_def spec_handlesMethod_def
  spec_optionsMethods_def spec_registerParamsAsQuery_def TrimPrefix_def

text \<open>What a dispatch reads from the stores of the examples.\<close>

lemma guarded_registered: "followRouter 1 guarded_store 0 = Some guarded"
  by (simp add: guarded_store_def guarded_def route_layer_def registration_defs)

lemma guarded_params_registered: "followRouter 1 guarded_params_store 0 = Some guarded_params"
  by (simp add: guarded_params_store_def guarded_params_def route_layer_def registration_defs)

lemma three_registered: "followRouter 1 three_store 0 = Some three"
  by (simp add: three_store_def three_def route_layer_def registration_defs)

lemma get_post_registered: "followRouter 1 get_post_store 0 = Some get_post"
  by (simp add: get_post_store_def get_post_def route_layer_def registration_defs)

lemma get_only_registered: "followRouter 1 get_only_store 0 = Some get_only"
  by (simp add: get_only_store_def get_only_def route_layer_def registration_defs)

lemma post_only_registered: "followRouter 1 post_only_store 0 = Some post_only"
  by (simp add: post_only_store_def post_only_def route_layer_def registration_defs)

lemma users_router_registered: "followRouter 1 users_store 1 = Some users_router"
  by (simp add: users_store_def users_router_def route_layer_def registration_defs)

lemma mounted_users_registered: "followRouter 1 api_store 1 = Some mounted_users"
  by (simp add: api_store_def users_store_def mounted_users_def users_router_def route_layer_def
      registration_defs)

lemma api_registered: "followRouter 2 api_store 0 = Some api"
  by (simp add: api_store_def users_store_def api_def mounted_users_def users_router_def
      route_layer_def registration_defs numeral_2_eq_2)

lemma api_fallback_registered: "followRouter 2 api_fallback_store 0 = Some api_fallback"
  by (simp add: api_fallback_store_def api_store_def users_store_def api_fallback_def
      mounted_users_def users_router_def route_layer_def registration_defs numeral_2_eq_2)

lemma mounted_any_registered: "followRouter 1 api_any_store 2 = Some mounted_any"
  by (simp add: api_any_store_def mounted_any_def inner_any_def registration_defs)

lemma api_any_registered: "followRouter 2 api_any_store 1 = Some api_any"
  by (simp add: api_any_store_def api_any_def mounted_any_def inner_any_def registration_defs
      numeral_2_eq_2)

lemma outer_registered: "followRouter 3 outer_store 0 = Some outer"
  by (simp add: outer_store_def api_any_store_def outer_def mounted_any_def inner_any_def
      registration_defs numeral_3_eq_3)

lemma mount_then_register:
  "(case NewRouter s0 of (s1, a) \<Rightarrow> case NewRouter s1 of (s2, b) \<Rightarrow>
      followRouter 2 (GET (Use s2 a ''/api'' [RouterRef b]) b ''/users'' [FuncRef g]) a) =
   Some (mounted_route g)"
  by (simp add: registration_defs numeral_2_eq_2 mounted_route_def route_layer_def)

lemma register_then_mount:
  "(case NewRouter s0 of (s1, a) \<Rightarrow> case NewRouter s1 of (s2, b) \<Rightarrow>
      followRouter 2 (Use (GET s2 b ''/users'' [FuncRef g]) a ''/api'' [RouterRef b]) a) =
   Some (mounted_route g)"
  by (simp add: registration_defs numeral_2_eq_2 mounted_route_def route_layer_def)

lemma mounted_route_not_found:
  "ServeHTTP grest (mounted_route g) (request ''GET'' ''/users'') =
     (request ''GET'' ''/users'')\<lparr>res := [NotFound]\<rparr>"
  by (simp add: mounted_route_def ServeHTTP_def next_fn.simps scan.simps done_fn_def
      request_def grest_defs)

lemma mounted_route_reached:
  "ServeHTTP grest (mounted_route g) (request ''GET'' ''/api/users'') =
     (case g (req (request ''GET'' ''/api/users'')) of
        (rq, effs, out) \<Rightarrow>
          \<lparr>req = rq,
           res = effs @ (case out of
                           Stopped \<Rightarrow> []
                         | Called None \<Rightarrow> [NotFound]
                         | Called (Some e) \<Rightarrow> [HttpError ''Something wrong'' 500]),
           handled = [''/api'', ''/users'']\<rparr>)"
proof -
  obtain rq effs out
    where g: "g \<lparr>Method = ''GET'', URL_Path = ''/api/users'', Query = []\<rparr> = (rq, effs, out)"
    by (cases "g \<lparr>Method = ''GET'', URL_Path = ''/api/users'', Query = []\<rparr>")
  show ?thesis
  proof (cases out)
    case Stopped
    with g show ?thesis
      by (simp add: mounted_route_def route_layer_def ServeHTTP_def next_fn.simps scan.simps
          done_fn_def request_def grest_defs)
  next
    case (Called eo)
    with g show ?thesis
      by (cases eo) (simp_all add: mounted_route_def route_layer_def ServeHTTP_def
          next_fn.simps scan.simps done_fn_def request_def grest_defs)
  qed
qed

text \<open>The examples with their layers written out.\<close>

lemma users_router_eval: "users_router =
    MkRouter [MkLayer ''/users'' (RouteH (MkRoute ''/users'' [(''GET'', [HTTPHandleFunc hello])])) True
      (Some (MkRoute ''/users'' [(''GET'', [HTTPHandleFunc hello])]))] []"
  by (simp add: users_router_def route_layer_def)

lemma guarded_eval: "guarded = MkRouter [MkLayer ''/'' (HTTPHandleFunc denied) False None,
    MkLayer ''/x'' (RouteH (MkRoute ''/x'' [(''GET'', [HTTPHandleFunc hello])])) True
      (Some (MkRoute ''/x'' [(''GET'', [HTTPHandleFunc hello])]))] []"
  by (simp add: guarded_def route_layer_def)

lemma scan_guarded: "scan grest (stack guarded) ''/x'' ''GET'' 0 [] =
    (1, [], Some (MkLayer ''/'' (HTTPHandleFunc denied) False None, []))"
  by (simp add: guarded_eval scan.simps matchLayer_def grest_def spec_match_def segments_def)

lemma get_post_scan:
  "scan failing_encoder (stack get_post) ''/x'' ''OPTIONS'' 0 [] = (2, [''GET'', ''POST''], None)"
  by (simp add: get_post_def route_layer_def scan.simps failing_encoder_def grest_defs)

section \<open>The claims\<close>

subsection \<open>C1: a path outside the prefix\<close>

text \<open>
  Claim C1, as amended. For a Router whose prefix is not empty and a request whose path is
  not under it, \<^verbatim>\<open>TrimPrefix\<close> leaves the path as it is and the layers are matched against
  the whole path. When no layer's pattern matches the whole path, the dispatch calls the
  terminal callback with no error and changes nothing. When the path is not empty, the
  dispatch is the scan of the whole path from the first layer: a layer that is found has
  its handler called.
\<close>

theorem prefix_mismatch_scans_full_path:
  assumes "routerPrefix this \<noteq> []" and "\<not> prefix (routerPrefix this) (URL_Path (req w))"
  shows "TrimPrefix (URL_Path (req w)) (routerPrefix this) = URL_Path (req w) \<and>
    ((\<forall>l \<in> set (stack this). \<not> snd (matchLayer X l (URL_Path (req w)))) \<longrightarrow>
       route X this w = (w, Called None)) \<and>
    (URL_Path (req w) \<noteq> [] \<longrightarrow>
       route X this w =
         (case scan X (stack this) (URL_Path (req w)) (Method (req w)) 0 [] of
            (idx', allow', None) \<Rightarrow> done_fn X (Method (req w) = ''OPTIONS'') allow' None w
          | (idx', allow', Some (l, urlParams)) \<Rightarrow>
              (case HTTPHandle X (layer_handler l)
                      (w\<lparr>req := registerParamsAsQuery X l (req w) urlParams,
                         handled := handled w @ [layer_path l]\<rparr>) of
                 (w', Stopped) \<Rightarrow> (w', Stopped)
               | (w', Called e) \<Rightarrow>
                   next_fn X this (Method (req w) = ''OPTIONS'') idx' allow' e w')))"
proof -
  let ?p = "URL_Path (req w)"
  let ?o = "Method (req w) = ''OPTIONS''"
  from assms(2) have t: "TrimPrefix ?p (routerPrefix this) = ?p"
    by (simp add: TrimPrefix_def)
  have a: "route X this w = (w, Called None)"
    if nm: "\<forall>l \<in> set (stack this). \<not> snd (matchLayer X l ?p)"
  proof (cases "?p = []")
    case True
    with t show ?thesis by (simp add: next_fn_empty done_fn_no_methods)
  next
    case False
    from scan_no_match[OF nm]
    have "scan X (stack this) ?p (Method (req w)) 0 [] = (max 0 (length (stack this)), [], None)" .
    from next_fn_exhausted[OF t False this] show ?thesis
      by (simp add: done_fn_no_methods)
  qed
  have b: "route X this w =
         (case scan X (stack this) ?p (Method (req w)) 0 [] of
            (idx', allow', None) \<Rightarrow> done_fn X ?o allow' None w
          | (idx', allow', Some (l, urlParams)) \<Rightarrow>
              (case HTTPHandle X (layer_handler l)
                      (w\<lparr>req := registerParamsAsQuery X l (req w) urlParams,
                         handled := handled w @ [layer_path l]\<rparr>) of
                 (w', Stopped) \<Rightarrow> (w', Stopped)
               | (w', Called e) \<Rightarrow> next_fn X this ?o idx' allow' e w'))"
    if ne: "?p \<noteq> []"
  proof -
    obtain idx' allow' sel where s: "scan X (stack this) ?p (Method (req w)) 0 [] =
        (idx', allow', sel)" by (cases "scan X (stack this) ?p (Method (req w)) 0 []")
    show ?thesis
    proof (cases sel)
      case None
      from next_fn_exhausted[OF t ne s[unfolded None]] s None show ?thesis by simp
    next
      case (Some lp)
      obtain l ps where lp: "lp = (l, ps)" by (cases lp)
      from next_fn_selected[OF t ne s[unfolded Some lp]] s Some lp show ?thesis by simp
    qed
  qed
  from t a b show ?thesis by blast
qed

text \<open>
  Claim C1 as stated fails. \<open>mounted_users\<close>, the router that \<open>api\<close> has mounted at
  \<open>/api\<close> (address 1 of \<open>api_store\<close>), has the prefix \<open>/api\<close>; for the path
  \<open>/users\<close>, which is not under it, its GET route on \<open>/users\<close> matches and the handler
  runs, and the terminal callback is not called. The same happens below a root: in
  \<open>outer\<close> the innermost router has the prefix \<open>/api\<close>, the path \<open>/v1/api/users\<close> is not
  under it, and its filter runs.
\<close>

theorem prefix_mismatch_counterexample:
  "followRouter 2 api_store 0 = Some api \<and>
   followRouter 1 api_store 1 = Some mounted_users \<and>
   followRouter 3 outer_store 0 = Some outer \<and>
   stack api = [MkLayer ''/api'' (RouterH mounted_users) False None] \<and>
   routerPrefix mounted_users = ''/api'' \<and>
   TrimPrefix (URL_Path (req (request ''GET'' ''/users''))) (routerPrefix mounted_users) = ''/users'' \<and>
   route grest mounted_users (request ''GET'' ''/users'') =
     ((request ''GET'' ''/users'')\<lparr>res := [Write ''hello''], handled := [''/users'']\<rparr>, Stopped) \<and>
   ServeHTTP grest outer (request ''GET'' ''/v1/api/users'') =
     (request ''GET'' ''/v1/api/users'')
       \<lparr>res := [Write ''hello''], handled := [''/v1'', ''/api'', ''/'']\<rparr>"
proof -
  note api_registered mounted_users_registered outer_registered
  moreover have "stack api = [MkLayer ''/api'' (RouterH mounted_users) False None]"
    by (simp add: api_def)
  moreover have "routerPrefix mounted_users = ''/api''"
    by (simp add: mounted_users_def)
  moreover have "TrimPrefix (URL_Path (req (request ''GET'' ''/users'')))
      (routerPrefix mounted_users) = ''/users''"
    by code_simp
  moreover have "route grest mounted_users (request ''GET'' ''/users'') =
     ((request ''GET'' ''/users'')\<lparr>res := [Write ''hello''], handled := [''/users'']\<rparr>, Stopped)"
    by code_simp
  moreover have "ServeHTTP grest outer (request ''GET'' ''/v1/api/users'') =
     (request ''GET'' ''/v1/api/users'')
       \<lparr>res := [Write ''hello''], handled := [''/v1'', ''/api'', ''/'']\<rparr>"
    by code_simp
  ultimately show ?thesis by blast
qed

text \<open>
  An instance: \<open>mounted_users\<close> and the path \<open>/other\<close>, which no layer matches.
\<close>

theorem prefix_mismatch_scans_full_path_witness:
  "TrimPrefix ''/other'' (routerPrefix mounted_users) = ''/other'' \<and>
   route grest mounted_users (request ''GET'' ''/other'') = (request ''GET'' ''/other'', Called None)"
proof -
  let ?w = "request ''GET'' ''/other''"
  have a: "routerPrefix mounted_users \<noteq> []" by (simp add: mounted_users_def)
  have b: "\<not> prefix (routerPrefix mounted_users) (URL_Path (req ?w))"
    by (simp add: mounted_users_def request_def)
  have c: "\<forall>l \<in> set (stack mounted_users). \<not> snd (matchLayer grest l (URL_Path (req ?w)))"
    by (simp add: mounted_users_def users_router_eval request_def grest_defs)
  from prefix_mismatch_scans_full_path[OF a b, of grest] c show ?thesis
    by (simp add: request_def)
qed

subsection \<open>C2: who answers OPTIONS\<close>

text \<open>
  Claim C2, as amended. Every Router, nested or root, is dispatched by \<^verbatim>\<open>route\<close>, which
  wraps the callback it is given when the method is OPTIONS on entry. A Router whose scan
  is exhausted calls the continuation it was given, with the error it holds, unless the
  callback is wrapped, there is no error and methods were accumulated: then it adds the
  \<open>Allow\<close> header and writes the body itself and does not call the continuation (an
  encoding error goes to the continuation).
\<close>

theorem nested_router_exhausted:
  assumes "TrimPrefix (URL_Path (req w)) (routerPrefix this) = path" and "path \<noteq> []"
    and "scan X (stack this) path (Method (req w)) idx allow = (idx', allow', None)"
  shows "HTTPHandle X (RouterH this) w =
           next_fn X this (Method (req w) = ''OPTIONS'') 0 [] None w \<and>
         next_fn X this wrapped idx allow err w =
           (if wrapped \<and> err = None \<and> allow' \<noteq> [] then
              (case json_Marshal X allow' of
                 Inl e \<Rightarrow>
                   (w\<lparr>res := res w @ [HeaderAdd ''Allow'' (Join allow' '','')]\<rparr>,
                    Called (Some e))
               | Inr data \<Rightarrow>
                   (w\<lparr>res := res w @ [HeaderAdd ''Allow'' (Join allow' '',''), Write data]\<rparr>,
                    Stopped))
            else (w, Called err))"
proof -
  have "done_fn X wrapped allow' err w =
           (if wrapped \<and> err = None \<and> allow' \<noteq> [] then
              (case json_Marshal X allow' of
                 Inl e \<Rightarrow>
                   (w\<lparr>res := res w @ [HeaderAdd ''Allow'' (Join allow' '','')]\<rparr>,
                    Called (Some e))
               | Inr data \<Rightarrow>
                   (w\<lparr>res := res w @ [HeaderAdd ''Allow'' (Join allow' '',''), Write data]\<rparr>,
                    Stopped))
            else (w, Called err))"
    by (auto simp: done_fn_def Let_def split: sum.splits)
  with next_fn_exhausted[OF assms] show ?thesis by simp
qed

text \<open>
  Claim C2 as stated fails. The router that \<open>api\<close> mounts at \<open>/api\<close> is \<open>mounted_users\<close>.
  For OPTIONS on \<open>/api/users\<close> its scan is exhausted with \<open>GET\<close> accumulated; it writes
  the automatic answer and does not call the continuation of its parent, so the filter
  that follows it in \<open>api_fallback\<close> is never reached.
\<close>

theorem nested_options_counterexample:
  "followRouter 2 api_store 0 = Some api \<and>
   followRouter 2 api_fallback_store 0 = Some api_fallback \<and>
   layer_handler (stack api ! 0) = RouterH mounted_users \<and>
   scan grest (stack mounted_users) ''/users'' ''OPTIONS'' 0 [] = (1, [''GET''], None) \<and>
   HTTPHandle grest (RouterH mounted_users) (request ''OPTIONS'' ''/api/users'') =
     ((request ''OPTIONS'' ''/api/users'')
        \<lparr>res := [HeaderAdd ''Allow'' ''GET'', Write (jsonStrings [''GET''])]\<rparr>, Stopped) \<and>
   ServeHTTP grest api_fallback (request ''OPTIONS'' ''/api/users'') =
     (request ''OPTIONS'' ''/api/users'')
        \<lparr>res := [HeaderAdd ''Allow'' ''GET'', Write (jsonStrings [''GET''])],
         handled := [''/api'']\<rparr>"
proof -
  note api_registered api_fallback_registered
  moreover have "layer_handler (stack api ! 0) = RouterH mounted_users"
    by (simp add: api_def)
  moreover have "scan grest (stack mounted_users) ''/users'' ''OPTIONS'' 0 [] = (1, [''GET''], None)"
    by (simp add: mounted_users_def users_router_eval scan.simps grest_defs)
  moreover have "HTTPHandle grest (RouterH mounted_users) (request ''OPTIONS'' ''/api/users'') =
     ((request ''OPTIONS'' ''/api/users'')
        \<lparr>res := [HeaderAdd ''Allow'' ''GET'', Write (jsonStrings [''GET''])]\<rparr>, Stopped)"
    by code_simp
  moreover have "ServeHTTP grest api_fallback (request ''OPTIONS'' ''/api/users'') =
     (request ''OPTIONS'' ''/api/users'')
        \<lparr>res := [HeaderAdd ''Allow'' ''GET'', Write (jsonStrings [''GET''])],
         handled := [''/api'']\<rparr>"
    by code_simp
  ultimately show ?thesis by blast
qed

text \<open>
  Two instances on \<open>mounted_users\<close>: wrapped with \<open>GET\<close> accumulated, and not wrapped.
\<close>

theorem nested_router_exhausted_witness:
  "next_fn grest mounted_users True 0 [] None (request ''OPTIONS'' ''/api/users'') =
     ((request ''OPTIONS'' ''/api/users'')
        \<lparr>res := [HeaderAdd ''Allow'' ''GET'', Write (jsonStrings [''GET''])]\<rparr>, Stopped) \<and>
   next_fn grest mounted_users False 0 [] None (request ''POST'' ''/api/users'') =
     (request ''POST'' ''/api/users'', Called None)"
proof -
  let ?w = "request ''OPTIONS'' ''/api/users''"
  let ?v = "request ''POST'' ''/api/users''"
  have p: "TrimPrefix (URL_Path (req ?w)) (routerPrefix mounted_users) = ''/users''"
    and q: "TrimPrefix (URL_Path (req ?v)) (routerPrefix mounted_users) = ''/users''"
    by (simp_all add: mounted_users_def request_def TrimPrefix_def)
  have s: "scan grest (stack mounted_users) ''/users'' (Method (req ?w)) 0 [] =
      (1, [''GET''], None)"
    and t: "scan grest (stack mounted_users) ''/users'' (Method (req ?v)) 0 [] = (1, [], None)"
    by (simp_all add: mounted_users_def users_router_eval scan.simps grest_defs request_def)
  from nested_router_exhausted[OF p _ s, of True None]
    nested_router_exhausted[OF q _ t, of False None]
  show ?thesis by (simp add: grest_def request_def)
qed

subsection \<open>C3: an error ends the dispatch\<close>

text \<open>
  Claim C3. Whenever the handler of the selected layer calls its continuation with an
  error \<open>e\<close>, the dispatch ends with the terminal callback called with exactly \<open>e\<close>, in
  the state the handler left: the continuation resumed at the advanced cursor returns at
  once, whatever layers follow, and so does every call of the continuation with an error.
  The history \<open>handled\<close> is part of the state, so no further handler is called.
\<close>

theorem error_short_circuit:
  assumes "TrimPrefix (URL_Path (req w)) (routerPrefix this) = path" and "path \<noteq> []"
    and "scan X (stack this) path (Method (req w)) idx allow = (idx', allow', Some (l, urlParams))"
    and "HTTPHandle X (layer_handler l)
           (w\<lparr>req := registerParamsAsQuery X l (req w) urlParams,
              handled := handled w @ [layer_path l]\<rparr>) = (w', Called (Some e))"
  shows "next_fn X this wrapped idx allow None w = (w', Called (Some e)) \<and>
         next_fn X this wrapped idx' allow' (Some e) w' = (w', Called (Some e)) \<and>
         (\<forall>i a v. next_fn X this wrapped i a (Some e) v = (v, Called (Some e)))"
  using assms by (simp add: next_fn_selected next_fn_error)

text \<open>
  An instance: in \<open>guarded\<close> the filter refuses a GET on \<open>/x\<close>, and the GET route that
  follows and matches is not called.
\<close>

theorem error_short_circuit_witness:
  "next_fn grest guarded False 0 [] None (request ''GET'' ''/x'') =
     ((request ''GET'' ''/x'')\<lparr>handled := [''/'']\<rparr>, Called (Some (Err ''denied''))) \<and>
   next_fn grest guarded False 1 [] (Some (Err ''denied'')) ((request ''GET'' ''/x'')\<lparr>handled := [''/'']\<rparr>) =
     ((request ''GET'' ''/x'')\<lparr>handled := [''/'']\<rparr>, Called (Some (Err ''denied'')))"
proof -
  let ?w = "request ''GET'' ''/x''"
  have p: "TrimPrefix (URL_Path (req ?w)) (routerPrefix guarded) = ''/x''"
    by (simp add: guarded_eval request_def TrimPrefix_def)
  have s: "scan grest (stack guarded) ''/x'' (Method (req ?w)) 0 [] =
      (1, [], Some (MkLayer ''/'' (HTTPHandleFunc denied) False None, []))"
    using scan_guarded by (simp add: request_def)
  have h: "HTTPHandle grest (layer_handler (MkLayer ''/'' (HTTPHandleFunc denied) False None))
      (?w\<lparr>req := registerParamsAsQuery grest (MkLayer ''/'' (HTTPHandleFunc denied) False None) (req ?w) [],
         handled := handled ?w @ [layer_path (MkLayer ''/'' (HTTPHandleFunc denied) False None)]\<rparr>)
      = (?w\<lparr>handled := [''/'']\<rparr>, Called (Some (Err ''denied'')))"
    by (simp add: request_def denied_def grest_def spec_registerParamsAsQuery_def)
  from error_short_circuit[OF p _ s h, of False] show ?thesis by simp
qed

subsection \<open>C4: the scan goes forward to the first usable layer\<close>

text \<open>
  Claim C4. One call of the continuation with no error, the cursor at \<open>idx\<close>: the scan
  leaves the cursor at \<open>idx'\<close>, further on and within the stack. If it selects a layer,
  that layer is the one just before \<open>idx'\<close>, it is usable, no layer from \<open>idx\<close> up to it
  is usable, its handler is the one called, and the continuation given to it resumes at
  \<open>idx'\<close>; what the resumed dispatch does depends only on the layers from \<open>idx'\<close> on, so
  no layer before the cursor is inspected again. If it selects none, no layer from
  \<open>idx\<close> on is usable, and the terminal callback is called. (A layer whose pattern
  matches and whose Route does not handle the method is usable exactly when the method is
  HEAD, as the claim's first part says.)
\<close>

theorem forward_scan_first_usable:
  assumes "TrimPrefix (URL_Path (req w)) (routerPrefix this) = path" and "path \<noteq> []"
    and "idx < length (stack this)"
    and "scan X (stack this) path (Method (req w)) idx allow = (idx', allow', sel)"
  shows "idx < idx' \<and> idx' \<le> length (stack this) \<and>
     (case sel of
        None \<Rightarrow>
          idx' = length (stack this) \<and>
          (\<forall>j. idx \<le> j \<and> j < length (stack this) \<longrightarrow>
               \<not> usable X path (Method (req w)) (stack this ! j)) \<and>
          next_fn X this wrapped idx allow None w = done_fn X wrapped allow' None w
      | Some (l, urlParams) \<Rightarrow>
          l = stack this ! (idx' - 1) \<and>
          usable X path (Method (req w)) l \<and>
          (\<forall>j. idx \<le> j \<and> j < idx' - 1 \<longrightarrow>
               \<not> usable X path (Method (req w)) (stack this ! j)) \<and>
          next_fn X this wrapped idx allow None w =
            (case HTTPHandle X (layer_handler l)
                    (w\<lparr>req := registerParamsAsQuery X l (req w) urlParams,
                       handled := handled w @ [layer_path l]\<rparr>) of
               (w', Stopped) \<Rightarrow> (w', Stopped)
             | (w', Called e) \<Rightarrow> next_fn X this wrapped idx' allow' e w') \<and>
          (\<forall>that e v. length (stack that) = length (stack this) \<and>
               routerPrefix that = routerPrefix this \<and>
               drop idx' (stack that) = drop idx' (stack this) \<longrightarrow>
               next_fn X that wrapped idx' allow' e v = next_fn X this wrapped idx' allow' e v))"
proof -
  from scan_bounds[OF assms(4)] assms(3) have b: "idx < idx'" "idx' \<le> length (stack this)"
    by simp_all
  show ?thesis
  proof (cases sel)
    case None
    with scan_first_usable[OF assms(4)] assms(3)
    have "idx' = length (stack this)"
      and "\<forall>j. idx \<le> j \<and> j < length (stack this) \<longrightarrow>
             \<not> usable X path (Method (req w)) (stack this ! j)"
      by (simp_all add: max_def)
    moreover from assms(4) have "next_fn X this wrapped idx allow None w =
        done_fn X wrapped allow' None w"
      unfolding None by (rule next_fn_exhausted[OF assms(1,2)])
    ultimately show ?thesis using b None by simp
  next
    case (Some lp)
    obtain l urlParams where lp: "lp = (l, urlParams)" by (cases lp)
    from scan_first_usable[OF assms(4)]
    have u: "l = stack this ! (idx' - 1) \<and> usable X path (Method (req w)) l \<and>
      (\<forall>j. idx \<le> j \<and> j < idx' - 1 \<longrightarrow> \<not> usable X path (Method (req w)) (stack this ! j))"
      unfolding Some lp option.case prod.case by blast
    from assms(4) have eq: "next_fn X this wrapped idx allow None w =
        (case HTTPHandle X (layer_handler l)
                (w\<lparr>req := registerParamsAsQuery X l (req w) urlParams,
                   handled := handled w @ [layer_path l]\<rparr>) of
           (w', Stopped) \<Rightarrow> (w', Stopped)
         | (w', Called e) \<Rightarrow> next_fn X this wrapped idx' allow' e w')"
      unfolding Some lp by (rule next_fn_selected[OF assms(1,2)])
    have "next_fn X that wrapped idx' allow' e v = next_fn X this wrapped idx' allow' e v"
      if "length (stack that) = length (stack this)" "routerPrefix that = routerPrefix this"
        "drop idx' (stack that) = drop idx' (stack this)" for that e v
      using that by (rule next_fn_suffix)
    then have suf: "\<forall>that e v. length (stack that) = length (stack this) \<and>
        routerPrefix that = routerPrefix this \<and>
        drop idx' (stack that) = drop idx' (stack this) \<longrightarrow>
        next_fn X that wrapped idx' allow' e v = next_fn X this wrapped idx' allow' e v"
      by blast
    show ?thesis
      unfolding Some lp option.case prod.case
      using b u eq suf by blast
  qed
qed

text \<open>
  An instance, the example of the specification: in \<open>three\<close> the POST route is passed
  over, the first GET route is selected, the second is not.
\<close>

theorem forward_scan_first_usable_witness:
  "scan grest (stack three) ''/x'' ''GET'' 0 [] = (2, [], Some (stack three ! 1, [])) \<and>
   \<not> usable grest ''/x'' ''GET'' (stack three ! 0) \<and>
   usable grest ''/x'' ''GET'' (stack three ! 1) \<and>
   usable grest ''/x'' ''GET'' (stack three ! 2) \<and>
   next_fn grest three False 0 [] None (request ''GET'' ''/x'') =
     ((request ''GET'' ''/x'')\<lparr>res := [Write ''second''], handled := [''/x'']\<rparr>, Stopped)"
proof -
  let ?w = "request ''GET'' ''/x''"
  have p: "TrimPrefix (URL_Path (req ?w)) (routerPrefix three) = ''/x''"
    by (simp add: three_def request_def TrimPrefix_def)
  have l: "0 < length (stack three)" by (simp add: three_def)
  have s: "scan grest (stack three) ''/x'' (Method (req ?w)) 0 [] =
      (2, [], Some (stack three ! 1, []))"
    by (simp add: three_def route_layer_def scan.simps grest_defs request_def)
  have u: "usable grest ''/x'' ''GET'' (stack three ! 2)"
    by (simp add: three_def route_layer_def usable_def grest_defs)
  have h: "HTTPHandle grest (layer_handler (stack three ! 1))
      (?w\<lparr>req := registerParamsAsQuery grest (stack three ! 1) (req ?w) [],
            handled := handled ?w @ [layer_path (stack three ! 1)]\<rparr>) =
      (?w\<lparr>res := [Write ''second''], handled := [''/x'']\<rparr>, Stopped)"
    by (simp add: three_def route_layer_def request_def say_def grest_defs)
  from forward_scan_first_usable[OF p _ l s, of False] s u h show ?thesis
    by (simp add: request_def)
qed

subsection \<open>C5: the allowed methods of an OPTIONS request\<close>

text \<open>
  Claim C5. A scan for the method OPTIONS appends to the allowed methods, for every layer
  it inspects and in that order, the \<^verbatim>\<open>optionsMethods()\<close> of the layer's Route when the
  pattern matches the path and the Route does not handle OPTIONS; nothing is removed. And
  a router of two such Routes, the first with the options \<open>GET\<close> and the second \<open>POST\<close>,
  answers an OPTIONS request with the header \<open>Allow: GET,POST\<close> and the encoded list, and
  neither not-found nor an error is reported.
\<close>

theorem options_accumulation:
  assumes "Method (req w) = ''OPTIONS''"
    and "TrimPrefix (URL_Path (req w)) (routerPrefix this) = path" and "path \<noteq> []"
    and "stack this = [l1, l2]"
    and "layer_route l1 = Some r1" and "layer_route l2 = Some r2"
    and "snd (matchLayer X l1 path)" and "snd (matchLayer X l2 path)"
    and "\<not> handlesMethod X r1 ''OPTIONS''" and "\<not> handlesMethod X r2 ''OPTIONS''"
    and "optionsMethods X r1 = [''GET'']" and "optionsMethods X r2 = [''POST'']"
    and "json_Marshal X [''GET'', ''POST''] = Inr data"
  shows "(case scan X stk p ''OPTIONS'' idx allow of
            (idx', allow', sel) \<Rightarrow>
              allow' = allow @ concat (map (claimedOptions X p) (take (idx' - idx) (drop idx stk)))) \<and>
         ServeHTTP X this w =
           w\<lparr>res := res w @ [HeaderAdd ''Allow'' ''GET,POST'', Write data]\<rparr>"
proof -
  have g: "case scan X stk p ''OPTIONS'' idx allow of
            (idx', allow', sel) \<Rightarrow>
              allow' = allow @ concat (map (claimedOptions X p) (take (idx' - idx) (drop idx stk)))"
    using scan_options[of X stk p idx allow] by (simp split: prod.splits)
  have "scan X (stack this) path (Method (req w)) 0 [] = (2, [''GET'', ''POST''], None)"
    using two_routes_scan[OF assms(5-10)] assms(1,4,11,12) by simp
  from next_fn_exhausted[OF assms(2,3) this, of True None]
  have "route X this w =
      (w\<lparr>res := res w @ [HeaderAdd ''Allow'' ''GET,POST'', Write data]\<rparr>, Stopped)"
    using assms(1,13) by (simp add: done_fn_def)
  then have "ServeHTTP X this w = w\<lparr>res := res w @ [HeaderAdd ''Allow'' ''GET,POST'', Write data]\<rparr>"
    by (simp add: ServeHTTP_def)
  with g show ?thesis by simp
qed

text \<open>
  An instance: \<open>get_post\<close>, a GET route and a POST route on \<open>/x\<close>.
\<close>

theorem options_accumulation_witness:
  "scan grest (stack get_post) ''/x'' ''OPTIONS'' 0 [] = (2, [''GET'', ''POST''], None) \<and>
   concat (map (claimedOptions grest ''/x'') (stack get_post)) = [''GET'', ''POST''] \<and>
   ServeHTTP grest get_post (request ''OPTIONS'' ''/x'') =
     (request ''OPTIONS'' ''/x'')
       \<lparr>res := [HeaderAdd ''Allow'' ''GET,POST'', Write (jsonStrings [''GET'', ''POST''])]\<rparr>"
proof -
  let ?w = "request ''OPTIONS'' ''/x''"
  let ?l1 = "route_layer ''/x'' ''GET'' [HTTPHandleFunc hello]"
  let ?l2 = "route_layer ''/x'' ''POST'' [HTTPHandleFunc hello]"
  have m: "Method (req ?w) = ''OPTIONS''" by (simp add: request_def)
  have p: "TrimPrefix (URL_Path (req ?w)) (routerPrefix get_post) = ''/x''"
    by (simp add: get_post_def request_def TrimPrefix_def)
  have st: "stack get_post = [?l1, ?l2]" by (simp add: get_post_def)
  have r1: "layer_route ?l1 = Some (MkRoute ''/x'' [(''GET'', [HTTPHandleFunc hello])])"
    and r2: "layer_route ?l2 = Some (MkRoute ''/x'' [(''POST'', [HTTPHandleFunc hello])])"
    by (simp_all add: route_layer_def)
  have m1: "snd (matchLayer grest ?l1 ''/x'')" and m2: "snd (matchLayer grest ?l2 ''/x'')"
    by (simp_all add: route_layer_def grest_defs)
  have h1: "\<not> handlesMethod grest (MkRoute ''/x'' [(''GET'', [HTTPHandleFunc hello])]) ''OPTIONS''"
    and h2: "\<not> handlesMethod grest (MkRoute ''/x'' [(''POST'', [HTTPHandleFunc hello])]) ''OPTIONS''"
    by (simp_all add: grest_defs)
  have o1: "optionsMethods grest (MkRoute ''/x'' [(''GET'', [HTTPHandleFunc hello])]) = [''GET'']"
    and o2: "optionsMethods grest (MkRoute ''/x'' [(''POST'', [HTTPHandleFunc hello])]) = [''POST'']"
    by (simp_all add: grest_defs)
  have j: "json_Marshal grest [''GET'', ''POST''] = Inr (jsonStrings [''GET'', ''POST''])"
    by (simp add: grest_def)
  have sc: "scan grest (stack get_post) ''/x'' ''OPTIONS'' 0 [] = (2, [''GET'', ''POST''], None)"
    using two_routes_scan[OF r1 r2 m1 m2 h1 h2] by (simp add: st o1 o2)
  from options_accumulation[where stk = "stack get_post" and p = "''/x''" and idx = 0
      and allow = "[]", OF m p _ st r1 r2 m1 m2 h1 h2 o1 o2 j] sc
  show ?thesis
    by (simp add: request_def st)
qed

subsection \<open>C6: HEAD\<close>

text \<open>
  Claim C6. For a HEAD request, a layer at the cursor that has a Route and whose pattern
  matches the path is selected by the scan, whatever \<^verbatim>\<open>handlesMethod\<close> answers for HEAD,
  and its handler is called with the captured parameters registered.
\<close>

theorem head_matches_any_route:
  assumes "Method (req w) = ''HEAD''"
    and "TrimPrefix (URL_Path (req w)) (routerPrefix this) = path" and "path \<noteq> []"
    and "idx < length (stack this)" and "stack this ! idx = l"
    and "layer_route l = Some rt" and "matchLayer X l path = (urlParams, True)"
  shows "scan X (stack this) path ''HEAD'' idx allow = (Suc idx, allow, Some (l, urlParams)) \<and>
         next_fn X this wrapped idx allow None w =
           (case HTTPHandle X (layer_handler l)
                   (w\<lparr>req := registerParamsAsQuery X l (req w) urlParams,
                      handled := handled w @ [layer_path l]\<rparr>) of
              (w', Stopped) \<Rightarrow> (w', Stopped)
            | (w', Called e) \<Rightarrow> next_fn X this wrapped (Suc idx) allow e w')"
proof -
  from assms(5,6,7) have s: "scan X (stack this) path ''HEAD'' idx allow =
      (Suc idx, allow, Some (l, urlParams))"
    by (simp add: scan_step[OF assms(4), of X path urlParams True])
  then have "scan X (stack this) path (Method (req w)) idx allow =
      (Suc idx, allow, Some (l, urlParams))" by (simp add: assms(1))
  from s next_fn_selected[OF assms(2,3) this] show ?thesis by simp
qed

text \<open>
  Two instances: a Route registered for GET only, and one registered for POST only, which
  does not handle HEAD; each is selected and its layer's handler is called.
\<close>

theorem head_matches_any_route_witness:
  "scan grest (stack get_only) ''/x'' ''HEAD'' 0 [] = (1, [], Some (stack get_only ! 0, [])) \<and>
   handled (fst (next_fn grest get_only False 0 [] None (request ''HEAD'' ''/x''))) = [''/x''] \<and>
   \<not> handlesMethod grest (MkRoute ''/x'' [(''POST'', [HTTPHandleFunc hello])]) ''HEAD'' \<and>
   scan grest (stack post_only) ''/x'' ''HEAD'' 0 [] = (1, [], Some (stack post_only ! 0, [])) \<and>
   handled (fst (next_fn grest post_only False 0 [] None (request ''HEAD'' ''/x''))) = [''/x'']"
proof -
  let ?w = "request ''HEAD'' ''/x''"
  let ?g = "route_layer ''/x'' ''GET'' [HTTPHandleFunc hello]"
  let ?p = "route_layer ''/x'' ''POST'' [HTTPHandleFunc hello]"
  have m: "Method (req ?w) = ''HEAD''" by (simp add: request_def)
  have pg: "TrimPrefix (URL_Path (req ?w)) (routerPrefix get_only) = ''/x''"
    and pp: "TrimPrefix (URL_Path (req ?w)) (routerPrefix post_only) = ''/x''"
    by (simp_all add: get_only_def post_only_def request_def TrimPrefix_def)
  have lg: "0 < length (stack get_only)" and lp: "0 < length (stack post_only)"
    by (simp_all add: get_only_def post_only_def)
  have sg: "stack get_only ! 0 = ?g" and sp: "stack post_only ! 0 = ?p"
    by (simp_all add: get_only_def post_only_def)
  have rg: "layer_route ?g = Some (MkRoute ''/x'' [(''GET'', [HTTPHandleFunc hello])])"
    and rp: "layer_route ?p = Some (MkRoute ''/x'' [(''POST'', [HTTPHandleFunc hello])])"
    by (simp_all add: route_layer_def)
  have mg: "matchLayer grest ?g ''/x'' = ([], True)" and mp: "matchLayer grest ?p ''/x'' = ([], True)"
    by (simp_all add: route_layer_def grest_defs)
  have nh: "\<not> handlesMethod grest (MkRoute ''/x'' [(''POST'', [HTTPHandleFunc hello])]) ''HEAD''"
    by (simp add: grest_defs)
  have eg: "handled (fst (case HTTPHandle grest (layer_handler ?g)
        (?w\<lparr>req := registerParamsAsQuery grest ?g (req ?w) [],
              handled := handled ?w @ [layer_path ?g]\<rparr>) of
          (w', Stopped) \<Rightarrow> (w', Stopped)
        | (w', Called e) \<Rightarrow> next_fn grest get_only False (Suc 0) [] e w')) = [''/x'']"
    by code_simp
  have ep: "handled (fst (case HTTPHandle grest (layer_handler ?p)
        (?w\<lparr>req := registerParamsAsQuery grest ?p (req ?w) [],
              handled := handled ?w @ [layer_path ?p]\<rparr>) of
          (w', Stopped) \<Rightarrow> (w', Stopped)
        | (w', Called e) \<Rightarrow> next_fn grest post_only False (Suc 0) [] e w')) = [''/x'']"
    by code_simp
  from head_matches_any_route[where wrapped = False and allow = "[]", OF m pg _ lg sg rg mg]
    head_matches_any_route[where wrapped = False and allow = "[]", OF m pp _ lp sp rp mp]
    nh eg ep sg sp
  show ?thesis by simp
qed

subsection \<open>C7: mounting a router\<close>

text \<open>
  Claim C7. For every handler of a call of \<^verbatim>\<open>Use\<close> that is a Router, the router at that
  address has, once the body of the loop has run for it, the prefix that \<open>this\<close> had at
  that moment followed by the path, and the stack of \<open>this\<close> has one more layer, holding
  the handler and no Route; \<^verbatim>\<open>Use\<close> runs that body for each handler in turn, with \<open>/\<close>
  for an empty path. When \<open>this\<close> is not among the handlers, after the call every router
  among them has the prefix of \<open>this\<close> followed by the path, \<open>this\<close> keeps its prefix and
  has the new layers after its old ones. And for a router A and a router B with a GET
  route on \<open>/users\<close> handled by \<open>g\<close>, B mounted at \<open>/api\<close> under A before or after the
  route is registered: a GET on \<open>/api/users\<close> at the root of A passes through the two
  layers to \<open>g\<close>, and the answer is what \<open>g\<close> does with the request (followed by the
  root's not-found or error answer when \<open>g\<close> calls its continuation); a GET on \<open>/users\<close>
  is not found and reaches no layer.
\<close>

theorem use_sets_prefix:
  "obj_routerPrefix (routers (useHandler s this p (RouterRef r)) r) =
     obj_routerPrefix (routers s this) @ p \<and>
   obj_stack (routers (useHandler s this p h) this) =
     obj_stack (routers s this) @ [MkLayerObj p h False None] \<and>
   Use s this path handlers =
     foldl (\<lambda>s h. useHandler s this (if path = [] then ''/'' else path) h) s handlers \<and>
   (RouterRef this \<notin> set handlers \<longrightarrow>
      (\<forall>r. RouterRef r \<in> set handlers \<longrightarrow>
         obj_routerPrefix (routers (Use s this path handlers) r) =
           obj_routerPrefix (routers s this) @ (if path = [] then ''/'' else path)) \<and>
      obj_routerPrefix (routers (Use s this path handlers) this) =
        obj_routerPrefix (routers s this) \<and>
      obj_stack (routers (Use s this path handlers) this) =
        obj_stack (routers s this) @
        map (\<lambda>h. MkLayerObj (if path = [] then ''/'' else path) h False None) handlers) \<and>
   (case NewRouter s0 of (s1, a) \<Rightarrow> case NewRouter s1 of (s2, b) \<Rightarrow>
      serve grest 2 (Use (GET s2 b ''/users'' [FuncRef g]) a ''/api'' [RouterRef b]) a
        (request ''GET'' ''/api/users'') =
      Some (case g (req (request ''GET'' ''/api/users'')) of
              (rq, effs, out) \<Rightarrow>
                \<lparr>req = rq,
                 res = effs @ (case out of
                                 Stopped \<Rightarrow> []
                               | Called None \<Rightarrow> [NotFound]
                               | Called (Some e) \<Rightarrow> [HttpError ''Something wrong'' 500]),
                 handled = [''/api'', ''/users'']\<rparr>) \<and>
      serve grest 2 (GET (Use s2 a ''/api'' [RouterRef b]) b ''/users'' [FuncRef g]) a
        (request ''GET'' ''/api/users'') =
      serve grest 2 (Use (GET s2 b ''/users'' [FuncRef g]) a ''/api'' [RouterRef b]) a
        (request ''GET'' ''/api/users'') \<and>
      serve grest 2 (Use (GET s2 b ''/users'' [FuncRef g]) a ''/api'' [RouterRef b]) a
        (request ''GET'' ''/users'') =
      Some ((request ''GET'' ''/users'')\<lparr>res := [NotFound]\<rparr>) \<and>
      serve grest 2 (GET (Use s2 a ''/api'' [RouterRef b]) b ''/users'' [FuncRef g]) a
        (request ''GET'' ''/users'') =
      Some ((request ''GET'' ''/users'')\<lparr>res := [NotFound]\<rparr>))"
proof -
  let ?p = "if path = [] then ''/'' else path"
  have u: "Use s this path handlers = foldl (\<lambda>s h. useHandler s this ?p h) s handlers"
    by (simp add: Use_def Let_def)
  have l: "RouterRef this \<notin> set handlers \<longrightarrow>
      (\<forall>r. RouterRef r \<in> set handlers \<longrightarrow>
         obj_routerPrefix (routers (Use s this path handlers) r) =
           obj_routerPrefix (routers s this) @ ?p) \<and>
      obj_routerPrefix (routers (Use s this path handlers) this) =
        obj_routerPrefix (routers s this) \<and>
      obj_stack (routers (Use s this path handlers) this) =
        obj_stack (routers s this) @ map (\<lambda>h. MkLayerObj ?p h False None) handlers"
    unfolding u using use_loop[of this handlers ?p s] by blast
  obtain s1 a where n1: "NewRouter s0 = (s1, a)" by (cases "NewRouter s0")
  obtain s2 b where n2: "NewRouter s1 = (s2, b)" by (cases "NewRouter s1")
  have f1: "followRouter 2 (Use (GET s2 b ''/users'' [FuncRef g]) a ''/api'' [RouterRef b]) a =
      Some (mounted_route g)"
    using register_then_mount[where ?s0.0 = s0 and g = g] by (simp add: n1 n2)
  have f2: "followRouter 2 (GET (Use s2 a ''/api'' [RouterRef b]) b ''/users'' [FuncRef g]) a =
      Some (mounted_route g)"
    using mount_then_register[where ?s0.0 = s0 and g = g] by (simp add: n1 n2)
  show ?thesis
    unfolding n1 n2 prod.case serve_def f1 f2 option.map
      mounted_route_reached mounted_route_not_found
    using useHandler_router[of s this p r] useHandler_stack[of s this p h] u l by blast
qed

text \<open>
  Two instances. In \<open>api_store\<close> the router at address 1 is mounted at \<open>/api\<close>; read from
  the root it is \<open>api\<close>, and \<open>/api/users\<close> is answered by \<open>hello\<close>. In \<open>twice_store\<close> the
  same router is mounted at \<open>/a\<close> and then at \<open>/b\<close>: both layers hold its address, its
  prefix is \<open>/b\<close>, \<open>/b/users\<close> is answered and \<open>/a/users\<close> is not found.
\<close>

theorem use_sets_prefix_witness:
  "obj_routerPrefix (routers api_store 1) = ''/api'' \<and>
   obj_routerPrefix (routers api_store 0) = [] \<and>
   obj_stack (routers api_store 0) = [MkLayerObj ''/api'' (RouterRef 1) False None] \<and>
   followRouter 2 api_store 0 = Some api \<and>
   serve grest 2 api_store 0 (request ''GET'' ''/api/users'') =
     Some ((request ''GET'' ''/api/users'')
             \<lparr>res := [Write ''hello''], handled := [''/api'', ''/users'']\<rparr>) \<and>
   serve grest 2 api_store 0 (request ''GET'' ''/users'') =
     Some ((request ''GET'' ''/users'')\<lparr>res := [NotFound]\<rparr>) \<and>
   obj_routerPrefix (routers twice_store 1) = ''/b'' \<and>
   obj_stack (routers twice_store 0) =
     [MkLayerObj ''/a'' (RouterRef 1) False None, MkLayerObj ''/b'' (RouterRef 1) False None] \<and>
   serve grest 2 twice_store 0 (request ''GET'' ''/b/users'') =
     Some ((request ''GET'' ''/b/users'')
             \<lparr>res := [Write ''hello''], handled := [''/b'', ''/users'']\<rparr>) \<and>
   serve grest 2 twice_store 0 (request ''GET'' ''/a/users'') =
     Some ((request ''GET'' ''/a/users'')\<lparr>res := [NotFound], handled := [''/a'']\<rparr>)"
proof -
  have e: "obj_routerPrefix (routers users_store 0) = []"
    and st: "obj_stack (routers users_store 0) = []"
    by (simp_all add: users_store_def registration_defs)
  have n: "RouterRef 0 \<notin> set [RouterRef 1]" by simp
  note u = use_sets_prefix[where s = users_store and this = 0 and path = "''/api''"
      and handlers = "[RouterRef 1]" and p = "''/api''" and r = 1 and h = "RouterRef 1"
      and g = hello and ?s0.0 = no_routers,
      THEN conjunct2, THEN conjunct2, THEN conjunct2, THEN conjunct1, THEN mp, OF n]
  from u e st
  have p: "obj_routerPrefix (routers api_store 1) = ''/api''"
    and q: "obj_routerPrefix (routers api_store 0) = []"
    and r: "obj_stack (routers api_store 0) = [MkLayerObj ''/api'' (RouterRef 1) False None]"
    by (simp_all add: api_store_def)
  have v: "serve grest 2 api_store 0 (request ''GET'' ''/api/users'') =
      Some ((request ''GET'' ''/api/users'')
              \<lparr>res := [Write ''hello''], handled := [''/api'', ''/users'']\<rparr>)"
    and w: "serve grest 2 api_store 0 (request ''GET'' ''/users'') =
      Some ((request ''GET'' ''/users'')\<lparr>res := [NotFound]\<rparr>)"
    by code_simp+
  have t1: "obj_routerPrefix (routers twice_store 1) = ''/b''"
    and t2: "obj_stack (routers twice_store 0) =
      [MkLayerObj ''/a'' (RouterRef 1) False None, MkLayerObj ''/b'' (RouterRef 1) False None]"
    by (simp_all add: twice_store_def users_store_def registration_defs)
  have t3: "serve grest 2 twice_store 0 (request ''GET'' ''/b/users'') =
      Some ((request ''GET'' ''/b/users'')
              \<lparr>res := [Write ''hello''], handled := [''/b'', ''/users'']\<rparr>)"
    and t4: "serve grest 2 twice_store 0 (request ''GET'' ''/a/users'') =
      Some ((request ''GET'' ''/a/users'')\<lparr>res := [NotFound], handled := [''/a'']\<rparr>)"
    by code_simp+
  from p q r api_registered v w t1 t2 t3 t4 show ?thesis by blast
qed

subsection \<open>C8: the encoder fails\<close>

text \<open>
  Claim C8. When the wrapped callback is called with no error and methods accumulated,
  and the encoder returns an error, the original callback is called with that error; the
  \<open>Allow\<close> header has been added and nothing is written.
\<close>

theorem options_encoding_failure:
  assumes "json_Marshal X allow' = Inl e" and "allow' \<noteq> []"
    and "TrimPrefix (URL_Path (req w)) (routerPrefix this) = path" and "path \<noteq> []"
    and "scan X (stack this) path (Method (req w)) idx allow = (idx', allow', None)"
  shows "done_fn X True allow' None w =
           (w\<lparr>res := res w @ [HeaderAdd ''Allow'' (Join allow' '','')]\<rparr>, Called (Some e)) \<and>
         next_fn X this True idx allow None w =
           (w\<lparr>res := res w @ [HeaderAdd ''Allow'' (Join allow' '','')]\<rparr>, Called (Some e))"
proof -
  from assms(1,2) have "done_fn X True allow' None w =
      (w\<lparr>res := res w @ [HeaderAdd ''Allow'' (Join allow' '','')]\<rparr>, Called (Some e))"
    by (simp add: done_fn_def)
  with next_fn_exhausted[OF assms(3,4,5)] show ?thesis by simp
qed

text \<open>
  An instance: \<open>get_post\<close> with an encoder that fails; the root answers with status 500.
\<close>

theorem options_encoding_failure_witness:
  "next_fn failing_encoder get_post True 0 [] None (request ''OPTIONS'' ''/x'') =
     ((request ''OPTIONS'' ''/x'')\<lparr>res := [HeaderAdd ''Allow'' ''GET,POST'']\<rparr>,
      Called (Some (Err ''unsupported value''))) \<and>
   ServeHTTP failing_encoder get_post (request ''OPTIONS'' ''/x'') =
     (request ''OPTIONS'' ''/x'')
       \<lparr>res := [HeaderAdd ''Allow'' ''GET,POST'', HttpError ''Something wrong'' 500]\<rparr>"
proof -
  let ?w = "request ''OPTIONS'' ''/x''"
  have j: "json_Marshal failing_encoder [''GET'', ''POST''] = Inl (Err ''unsupported value'')"
    by (simp add: failing_encoder_def)
  have p: "TrimPrefix (URL_Path (req ?w)) (routerPrefix get_post) = ''/x''"
    by (simp add: get_post_def request_def TrimPrefix_def)
  have s: "scan failing_encoder (stack get_post) ''/x'' (Method (req ?w)) 0 [] =
      (2, [''GET'', ''POST''], None)"
    using get_post_scan by (simp add: request_def)
  from options_encoding_failure[OF j _ p _ s]
  show ?thesis by (simp add: request_def ServeHTTP_def)
qed

subsection \<open>C9: an error leaves the request as it is\<close>

text \<open>
  Claim C9. A call of the continuation with an error returns the request unchanged, and
  so its queryable parameters, for every router, cursor and collaborators: no captured
  parameter is registered, whatever the scan finds.
\<close>

theorem error_leaves_request:
  "req (fst (next_fn X this wrapped idx allow (Some e) w)) = req w \<and>
   Query (req (fst (next_fn X this wrapped idx allow (Some e) w))) = Query (req w)"
  by (simp add: next_fn_error)

text \<open>
  An instance: in \<open>guarded_params\<close> the scan from the second layer finds the route and
  captures \<open>id\<close>, and the request keeps its empty parameters.
\<close>

theorem error_leaves_request_witness:
  "scan grest (stack guarded_params) ''/users/42'' ''GET'' 1 [] =
     (2, [], Some (stack guarded_params ! 1, [(''id'', [''42''])])) \<and>
   Query (req (fst (next_fn grest guarded_params False 1 [] (Some (Err ''denied''))
                      (request ''GET'' ''/users/42'')))) = []"
proof -
  have "scan grest (stack guarded_params) ''/users/42'' ''GET'' 1 [] =
     (2, [], Some (stack guarded_params ! 1, [(''id'', [''42''])]))"
    by (simp add: guarded_params_def route_layer_def scan.simps grest_defs)
  with error_leaves_request[of grest guarded_params False 1 "[]" "Err ''denied''"
      "request ''GET'' ''/users/42''"]
  show ?thesis by (simp add: request_def)
qed

subsection \<open>C10: the path is exactly the prefix\<close>

text \<open>
  Claim C10. When the prefix stripped from the path leaves nothing, the continuation goes
  to the terminal callback with the error it holds, the cursor and the allowed methods as
  they are: no layer is inspected. A dispatch entered with such a path calls the callback
  it was given with no error, and the root reports not-found.
\<close>

theorem empty_trimmed_path:
  assumes "TrimPrefix (URL_Path (req w)) (routerPrefix this) = []"
  shows "next_fn X this wrapped idx allow err w = done_fn X wrapped allow err w \<and>
         route X this w = (w, Called None) \<and>
         ServeHTTP X this w = w\<lparr>res := res w @ [NotFound]\<rparr>"
  using assms by (simp add: next_fn_empty done_fn_no_methods ServeHTTP_def)

text \<open>
  An instance: \<open>mounted_any\<close>, the router that \<open>api_any\<close> has mounted at \<open>/api\<close>, has a
  filter on \<open>/\<close>, usable for any path; the path \<open>/api\<close> reaches no layer of it, from the
  root \<open>api_any\<close> either.
\<close>

theorem empty_trimmed_path_witness:
  "followRouter 2 api_any_store 1 = Some api_any \<and>
   followRouter 1 api_any_store 2 = Some mounted_any \<and>
   stack api_any = [MkLayer ''/api'' (RouterH mounted_any) False None] \<and>
   stack mounted_any = [MkLayer ''/'' (HTTPHandleFunc hello) False None] \<and>
   usable grest ''/api'' ''GET'' (stack mounted_any ! 0) \<and>
   TrimPrefix (URL_Path (req (request ''GET'' ''/api''))) (routerPrefix mounted_any) = [] \<and>
   route grest mounted_any (request ''GET'' ''/api'') = (request ''GET'' ''/api'', Called None) \<and>
   ServeHTTP grest mounted_any (request ''GET'' ''/api'') =
     (request ''GET'' ''/api'')\<lparr>res := [NotFound]\<rparr> \<and>
   ServeHTTP grest api_any (request ''GET'' ''/api'') =
     (request ''GET'' ''/api'')\<lparr>res := [NotFound], handled := [''/api'']\<rparr>"
proof -
  let ?w = "request ''GET'' ''/api''"
  have m: "stack api_any = [MkLayer ''/api'' (RouterH mounted_any) False None]"
    by (simp add: api_any_def)
  have st: "stack mounted_any = [MkLayer ''/'' (HTTPHandleFunc hello) False None]"
    by (simp add: mounted_any_def inner_any_def registration_defs)
  have u: "usable grest ''/api'' ''GET'' (stack mounted_any ! 0)"
    by (simp add: st usable_def grest_defs)
  have p: "TrimPrefix (URL_Path (req ?w)) (routerPrefix mounted_any) = []"
    by (simp add: mounted_any_def request_def TrimPrefix_def)
  have r: "ServeHTTP grest api_any ?w =
      ?w\<lparr>res := [NotFound], handled := [''/api'']\<rparr>"
    by code_simp
  from empty_trimmed_path[OF p, of grest False 0 "[]" None] m st u p r
    api_any_registered mounted_any_registered
  show ?thesis by (simp add: request_def done_fn_def)
qed

end
